theory Spec2Isabelle
  imports Complex_Main "HOL-Library.Monad_Syntax"
begin

section \<open>Data model of one\_dimension.py\<close>

text \<open>
  Axis labels are Python values: a string, or \<open>None\<close> (the default of the keyword
  arguments of \<open>replace_left_right_phys_labels\<close>).  \<open>Some s\<close> is the string \<open>s\<close>.
\<close>

type_synonym label = "string option"

text \<open>A numpy array: its shape and its entries in row-major order.\<close>

record ndarray =
  shape :: "nat list"
  flat :: "complex list"

text \<open>A \<open>Tensor\<close> object: the attributes \<open>labels\<close> and \<open>data\<close>.\<close>

record tensor =
  labels :: "label list"
  data :: ndarray

text \<open>
  \<open>OneDimensionalTensorNetwork\<close>: the attribute \<open>data\<close> (here \<open>chain_data\<close>, the array of
  references to the tensor objects), \<open>left_label\<close> and \<open>right_label\<close>.
  \<open>MatrixProductState\<close> extends it with \<open>phys_label\<close>.
\<close>

record OneDimensionalTensorNetwork =
  chain_data :: "nat list"
  left_label :: label
  right_label :: label

record MatrixProductState = OneDimensionalTensorNetwork +
  phys_label :: label

text \<open>
  The store.  Tensor objects and chain objects are mutable and are passed by reference:
  a reference is an index into the store, allocation appends.
\<close>

record heap =
  tensors :: "tensor list"
  chains :: "MatrixProductState list"

section \<open>Exceptions\<close>

text \<open>
  A call that raises an exception has the value \<open>None\<close>; a call that returns \<open>x\<close> has the
  value \<open>Some x\<close>.  A sequence of calls stops at the first exception (\<open>do\<close> notation).
  The value a Python function returns is a number or \<open>None\<close>.
\<close>

datatype pyvalue = PyNone | PyNumber complex

section \<open>numpy arrays\<close>

text \<open>All multi-indices of a shape, in row-major order, and the row-major offset.\<close>

fun all_indices :: "nat list \<Rightarrow> nat list list" where
  "all_indices [] = [[]]"
| "all_indices (d # ds) = concat (map (\<lambda>i. map ((#) i) (all_indices ds)) [0..<d])"

fun offset :: "nat list \<Rightarrow> nat list \<Rightarrow> nat" where
  "offset (d # ds) (i # js) = i * prod_list ds + offset ds js"
| "offset _ _ = 0"

definition nd_get :: "ndarray \<Rightarrow> nat list \<Rightarrow> complex" where
  "nd_get a idx = flat a ! offset (shape a) idx"

definition nd_build :: "nat list \<Rightarrow> (nat list \<Rightarrow> complex) \<Rightarrow> ndarray" where
  "nd_build s f = \<lparr>shape = s, flat = map f (all_indices s)\<rparr>"

text \<open>\<open>a * c\<close> and \<open>a / c\<close> for a scalar \<open>c\<close>.\<close>

definition nd_scale :: "ndarray \<Rightarrow> complex \<Rightarrow> ndarray" where
  "nd_scale a c = a\<lparr>flat := map (\<lambda>x. x * c) (flat a)\<rparr>"

definition nd_divide :: "ndarray \<Rightarrow> complex \<Rightarrow> ndarray" where
  "nd_divide a c = a\<lparr>flat := map (\<lambda>x. x / c) (flat a)\<rparr>"

text \<open>\<open>np.linalg.norm(a)\<close>: the Frobenius norm of all entries.  The square root has no
  code equation, so the definition is not one either.\<close>

definition linalg_norm :: "ndarray \<Rightarrow> real" where
  "linalg_norm a = sqrt (sum_list (map (\<lambda>x. (cmod x)\<^sup>2) (flat a)))"

declare linalg_norm_def [code del]

text \<open>\<open>np.identity(n)\<close>.\<close>

definition identity :: "nat \<Rightarrow> ndarray" where
  "identity n = nd_build [n, n] (\<lambda>idx. if idx ! 0 = idx ! 1 then 1 else 0)"

text \<open>
  \<open>np.diag\<close>: the diagonal of a 2-d array as a 1-d array, or the diagonal matrix of a 1-d
  array; any other number of dimensions raises ValueError.
\<close>

definition np_diag :: "ndarray \<Rightarrow> ndarray option" where
  "np_diag a =
     (case shape a of
        [n] \<Rightarrow> Some (nd_build [n, n] (\<lambda>idx. if idx ! 0 = idx ! 1 then flat a ! (idx ! 0) else 0))
      | [m, n] \<Rightarrow> Some (nd_build [min m n] (\<lambda>idx. nd_get a [idx ! 0, idx ! 0]))
      | _ \<Rightarrow> None)"

text \<open>\<open>a[0]\<close> on a 1-d array: IndexError when it is empty.\<close>

definition first_entry :: "complex list \<Rightarrow> complex option" where
  "first_entry xs = (case xs of [] \<Rightarrow> None | x # _ \<Rightarrow> Some x)"

text \<open>\<open>a.shape[0]\<close>: IndexError for an array with no axis.\<close>

definition first_dim :: "ndarray \<Rightarrow> nat option" where
  "first_dim a = (case shape a of [] \<Rightarrow> None | n # _ \<Rightarrow> Some n)"

text \<open>
  The slice \<open>xs[:chi]\<close> of a 1-d array for a Python integer \<open>chi\<close>: a negative bound counts
  from the end.
\<close>

definition slice_upto :: "int \<Rightarrow> 'a list \<Rightarrow> 'a list" where
  "slice_upto chi xs =
     (if 0 \<le> chi then take (nat chi) xs else take (length xs - nat (- chi)) xs)"

text \<open>
  \<open>a[:, :, 0:k]\<close>: needs at least three axes (IndexError otherwise) and cuts the third
  one to its first \<open>k\<close> positions.
\<close>

definition slice_axis2 :: "ndarray \<Rightarrow> nat \<Rightarrow> ndarray option" where
  "slice_axis2 a k =
     (if length (shape a) < 3 then None
      else Some (nd_build ((shape a)[2 := min (shape a ! 2) k]) (nd_get a)))"

text \<open>\<open>a[0:k]\<close>: needs at least one axis and cuts the first one to its first \<open>k\<close> positions.\<close>

definition slice_axis0 :: "ndarray \<Rightarrow> nat \<Rightarrow> ndarray option" where
  "slice_axis0 a k =
     (if shape a = [] then None
      else Some (nd_build ((shape a)[0 := min (shape a ! 0) k]) (nd_get a)))"

text \<open>
  \<open>a - b\<close> with numpy's broadcasting: the shapes are aligned at their last axes, and two
  aligned sizes must be equal unless one of them is 1 (ValueError otherwise).
\<close>

fun broadcast_rev :: "nat list \<Rightarrow> nat list \<Rightarrow> nat list option" where
  "broadcast_rev [] ys = Some ys"
| "broadcast_rev xs [] = Some xs"
| "broadcast_rev (x # xs) (y # ys) =
     (if x = y \<or> y = 1 then map_option ((#) x) (broadcast_rev xs ys)
      else if x = 1 then map_option ((#) y) (broadcast_rev xs ys)
      else None)"

definition broadcast_get :: "ndarray \<Rightarrow> nat list \<Rightarrow> complex" where
  "broadcast_get a idx =
     nd_get a (map (\<lambda>(d, i). if d = 1 then 0 else i)
                 (zip (shape a) (drop (length idx - length (shape a)) idx)))"

definition nd_sub :: "ndarray \<Rightarrow> ndarray \<Rightarrow> ndarray option" where
  "nd_sub a b =
     map_option (\<lambda>rs. nd_build (rev rs) (\<lambda>idx. broadcast_get a idx - broadcast_get b idx))
       (broadcast_rev (rev (shape a)) (rev (shape b)))"

text \<open>
  \<open>np.tensordot(a, b, (ia, ib))\<close>: the axes \<open>ia\<close> of \<open>a\<close> are summed against the axes
  \<open>ib\<close> of \<open>b\<close>; the result carries the remaining axes of \<open>a\<close>, then those of \<open>b\<close>.
  Axis lists of different lengths or paired axes of different sizes raise ValueError.
\<close>

definition index_of :: "'a list \<Rightarrow> 'a \<Rightarrow> nat" where
  "index_of xs x = length (takeWhile (\<lambda>y. y \<noteq> x) xs)"

definition free_axes :: "nat \<Rightarrow> nat list \<Rightarrow> nat list" where
  "free_axes n ia = filter (\<lambda>i. i \<notin> set ia) [0..<n]"

definition full_index :: "nat \<Rightarrow> nat list \<Rightarrow> nat list \<Rightarrow> nat list \<Rightarrow> nat list" where
  "full_index n ia c f =
     map (\<lambda>p. if p \<in> set ia then c ! index_of ia p else f ! index_of (free_axes n ia) p) [0..<n]"

definition tensordot :: "ndarray \<Rightarrow> ndarray \<Rightarrow> nat list \<Rightarrow> nat list \<Rightarrow> ndarray option" where
  "tensordot a b ia ib =
     (if length ia \<noteq> length ib \<or> \<not> distinct ia \<or> \<not> distinct ib
         \<or> map ((!) (shape a)) ia \<noteq> map ((!) (shape b)) ib
      then None
      else
        let na = length (shape a); nb = length (shape b);
            fa = free_axes na ia; fb = free_axes nb ib
        in Some (nd_build (map ((!) (shape a)) fa @ map ((!) (shape b)) fb)
                  (\<lambda>idx. sum_list (map
                     (\<lambda>c. nd_get a (full_index na ia c (take (length fa) idx))
                          * nd_get b (full_index nb ib c (drop (length fa) idx)))
                     (all_indices (map ((!) (shape a)) ia))))))"

section \<open>The tensor library\<close>

text \<open>
  The module \<open>tncontract.tensor\<close> is not part of the sources.  Its methods that only
  rename, copy or reshape are modelled from the specification; the decompositions that
  have no exact algorithm (\<open>tensor_svd\<close>, \<open>np.linalg.solve\<close>) and \<open>consolidate_indices\<close>
  are parameters of the model, collected in a record.
\<close>

text \<open>Modelled from the spec: \<open>Tensor.copy\<close>, a tensor with independent storage and the
  same labels and data.  In the model a tensor value is its own copy.\<close>

definition copy_tensor :: "tensor \<Rightarrow> tensor" where
  "copy_tensor t = t"

text \<open>Modelled from the spec: \<open>Tensor.replace_label\<close> (label replace).  Every label of
  the tensor that occurs in \<open>old_labels\<close> is replaced by the label at the same position of
  \<open>new_labels\<close>; all labels are looked up in the labels before the call.\<close>

definition replace_one :: "label list \<Rightarrow> label list \<Rightarrow> label \<Rightarrow> label" where
  "replace_one old_labels new_labels l =
     (if l \<in> set old_labels then new_labels ! index_of old_labels l else l)"

definition replace_label :: "label list \<Rightarrow> label list \<Rightarrow> tensor \<Rightarrow> tensor" where
  "replace_label old_labels new_labels t =
     t\<lparr>labels := map (replace_one old_labels new_labels) (labels t)\<rparr>"

text \<open>Modelled from the spec: \<open>Tensor.add_dummy_index\<close> (dummy-index insertion), a new
  first axis of size 1 with the given label.\<close>

definition add_dummy_index :: "label \<Rightarrow> tensor \<Rightarrow> tensor" where
  "add_dummy_index l t =
     t\<lparr>labels := l # labels t, data := (data t)\<lparr>shape := 1 # shape (data t)\<rparr>\<rparr>"

text \<open>Modelled from the spec: \<open>Tensor.remove_all_dummy_indices\<close>, which drops every axis
  of size 1 with its label.\<close>

definition remove_all_dummy_indices :: "tensor \<Rightarrow> tensor" where
  "remove_all_dummy_indices t =
     \<lparr>labels = map fst (filter (\<lambda>(l, d). d \<noteq> 1) (zip (labels t) (shape (data t)))),
      data = (data t)\<lparr>shape := filter (\<lambda>d. d \<noteq> 1) (shape (data t))\<rparr>\<rparr>"

text \<open>Modelled from the spec: \<open>Tensor.conjugate\<close>, the complex conjugate of every entry.\<close>

definition conjugate :: "tensor \<Rightarrow> tensor" where
  "conjugate t = t\<lparr>data := (data t)\<lparr>flat := map cnj (flat (data t))\<rparr>\<rparr>"

text \<open>Modelled from the spec: \<open>contract(A, B, labelsA, labelsB)\<close> (label-based
  contraction).  Every axis of \<open>A\<close> carrying a label of \<open>labelsA\<close> is summed against the
  axes of \<open>B\<close> carrying the labels of \<open>labelsB\<close>, in order; the result has the remaining
  labels of \<open>A\<close> followed by those of \<open>B\<close>.\<close>

definition positions :: "label list \<Rightarrow> label \<Rightarrow> nat list" where
  "positions ls l = filter (\<lambda>i. ls ! i = l) [0..<length ls]"

definition contract :: "tensor \<Rightarrow> tensor \<Rightarrow> label list \<Rightarrow> label list \<Rightarrow> tensor option" where
  "contract A B labelsA labelsB =
     (let ia = concat (map (positions (labels A)) labelsA);
          ib = concat (map (positions (labels B)) labelsB)
      in do {
        d \<leftarrow> tensordot (data A) (data B) ia ib;
        Some \<lparr>labels = map ((!) (labels A)) (free_axes (length (labels A)) ia)
                       @ map ((!) (labels B)) (free_axes (length (labels B)) ib),
              data = d\<rparr>
      })"

text \<open>The parameters: \<open>tensor_svd(A, rowLabels)\<close> returns \<open>(U, S, V)\<close> or raises;
  \<open>np.linalg.solve(A, b)\<close> returns the solution or raises; \<open>consolidate_indices\<close>
  rewrites a tensor.\<close>

record tensor_lib =
  tensor_svd :: "tensor \<Rightarrow> label list \<Rightarrow> (tensor \<times> tensor \<times> tensor) option"
  linalg_solve :: "ndarray \<Rightarrow> ndarray \<Rightarrow> ndarray option"
  consolidate_indices :: "tensor \<Rightarrow> tensor"

section \<open>Chain container\<close>

text \<open>
  Objects in the store.  \<open>alloc_tensor\<close> creates a tensor object, \<open>update_tensor\<close> is an
  in-place mutation of the tensor object at a reference, \<open>update_chain\<close> one of a chain
  object.
\<close>

definition alloc_tensor :: "tensor \<Rightarrow> heap \<Rightarrow> heap \<times> nat" where
  "alloc_tensor t h = (h\<lparr>tensors := tensors h @ [t]\<rparr>, length (tensors h))"

definition update_tensor :: "nat \<Rightarrow> (tensor \<Rightarrow> tensor) \<Rightarrow> heap \<Rightarrow> heap" where
  "update_tensor r f h = h\<lparr>tensors := (tensors h)[r := f (tensors h ! r)]\<rparr>"

definition update_chain ::
  "nat \<Rightarrow> (MatrixProductState \<Rightarrow> MatrixProductState) \<Rightarrow> heap \<Rightarrow> heap" where
  "update_chain self f h = h\<lparr>chains := (chains h)[self := f (chains h ! self)]\<rparr>"

text \<open>The tensors of a chain, read through the store.\<close>

definition chain_tensors :: "heap \<Rightarrow> nat \<Rightarrow> tensor list" where
  "chain_tensors h self = map ((!) (tensors h)) (chain_data (chains h ! self))"

text \<open>
  \<open>__init__\<close> (lines 8-18 and 50-52): every input tensor is copied into a new object, and a
  dummy axis is added to the copy for a missing left or right label.
\<close>

definition init_tensor :: "label \<Rightarrow> label \<Rightarrow> tensor \<Rightarrow> tensor" where
  "init_tensor left right t =
     (let x = copy_tensor t;
          x1 = (if left \<notin> set (labels x) then add_dummy_index left x else x)
      in (if right \<notin> set (labels x1) then add_dummy_index right x1 else x1))"

definition new_MatrixProductState ::
  "tensor list \<Rightarrow> label \<Rightarrow> label \<Rightarrow> label \<Rightarrow> heap \<Rightarrow> heap \<times> nat" where
  "new_MatrixProductState ts left right phys h =
     (let n = length (tensors h);
          h1 = h\<lparr>tensors := tensors h @ map (init_tensor left right) ts\<rparr>;
          obj = \<lparr>chain_data = [n..<n + length ts], left_label = left, right_label = right,
                 phys_label = phys\<rparr>
      in (h1\<lparr>chains := chains h1 @ [obj]\<rparr>, length (chains h1)))"

text \<open>\<open>__len__\<close>, \<open>__getitem__\<close> and \<open>__setitem__\<close> (lines 23-28).  The index is a Python
  integer: a negative one counts from the end, one out of range raises IndexError.\<close>

definition len :: "heap \<Rightarrow> nat \<Rightarrow> nat" where
  "len h self = length (chain_data (chains h ! self))"

definition py_index :: "nat \<Rightarrow> int \<Rightarrow> nat option" where
  "py_index n i =
     (if 0 \<le> i \<and> i < int n then Some (nat i)
      else if - int n \<le> i \<and> i < 0 then Some (nat (i + int n))
      else None)"

definition getitem_ref :: "heap \<Rightarrow> nat \<Rightarrow> int \<Rightarrow> nat option" where
  "getitem_ref h self i =
     map_option ((!) (chain_data (chains h ! self))) (py_index (len h self) i)"

definition getitem :: "heap \<Rightarrow> nat \<Rightarrow> int \<Rightarrow> tensor option" where
  "getitem h self i = map_option ((!) (tensors h)) (getitem_ref h self i)"

text \<open>\<open>self[i] = t\<close> for a tensor \<open>t\<close> that was just built: the new object enters the store
  and slot \<open>i\<close> of the chain refers to it.\<close>

definition setitem :: "nat \<Rightarrow> int \<Rightarrow> tensor \<Rightarrow> heap \<Rightarrow> heap option" where
  "setitem self i t h =
     map_option
       (\<lambda>k. let (h1, r) = alloc_tensor t h
            in update_chain self (\<lambda>c. c\<lparr>chain_data := (chain_data c)[k := r]\<rparr>) h1)
       (py_index (len h self) i)"

text \<open>\<open>MatrixProductState.copy\<close> (lines 54-57).\<close>

definition copy_mps :: "nat \<Rightarrow> heap \<Rightarrow> heap \<times> nat" where
  "copy_mps self h =
     (let c = chains h ! self
      in new_MatrixProductState (map copy_tensor (chain_tensors h self))
           (left_label c) (right_label c) (phys_label c) h)"

text \<open>\<open>OneDimensionalTensorNetwork.reverse\<close> (lines 36-40), on the object.\<close>

definition reverse_obj ::
  "'a OneDimensionalTensorNetwork_scheme \<Rightarrow> 'a OneDimensionalTensorNetwork_scheme" where
  "reverse_obj self =
     (let self1 = self\<lparr>chain_data := rev (chain_data self)\<rparr>;
          temp = left_label self1;
          self2 = self1\<lparr>left_label := right_label self1\<rparr>
      in self2\<lparr>right_label := temp\<rparr>)"

text \<open>The method call \<open>self.reverse()\<close> on the chain object at reference \<open>self\<close>.\<close>

definition reverse :: "nat \<Rightarrow> heap \<Rightarrow> heap" where
  "reverse self h = h\<lparr>chains := (chains h)[self := reverse_obj (chains h ! self)]\<rparr>"

section \<open>Matrix product states\<close>

text \<open>The labels \<open>svd_in\<close> and \<open>svd_out\<close> that \<open>tensor_svd\<close> gives to the new bond axes.\<close>

definition svd_in :: label where "svd_in = Some ''svd_in''"
definition svd_out :: label where "svd_out = Some ''svd_out''"

text \<open>
  Lines 92-94: the normalised singular values strictly above the threshold, then the
  slice \<open>[:chi]\<close> when \<open>chi\<close> is not zero.  The singular values are real; they are
  stored as complex entries and the comparison reads the real part.
\<close>

definition truncate_singular_values :: "int \<Rightarrow> real \<Rightarrow> complex list \<Rightarrow> complex list" where
  "truncate_singular_values chi threshold singular_values =
     (let singular_values_to_keep = filter (\<lambda>x. Re x > threshold) singular_values
      in if chi \<noteq> 0 then slice_upto chi singular_values_to_keep else singular_values_to_keep)"

text \<open>
  Lines 87-98 of \<open>left_canonise\<close>: from the three tensors of the SVD to the accumulator
  \<open>norm\<close> (here \<open>norm_acc\<close>) and the truncated \<open>U\<close>, \<open>S\<close> and \<open>V\<close>.
\<close>

definition truncate_svd ::
  "int \<Rightarrow> real \<Rightarrow> complex \<Rightarrow> tensor \<times> tensor \<times> tensor
     \<Rightarrow> (complex \<times> tensor \<times> tensor \<times> tensor) option" where
  "truncate_svd chi threshold norm_acc USV =
     (case USV of (U, S, V) \<Rightarrow> do {
        sv \<leftarrow> np_diag (data S);
        largest_singular_value \<leftarrow> first_entry (flat sv);
        let singular_values = map (\<lambda>x. x / largest_singular_value) (flat sv);
        let norm1 = norm_acc * largest_singular_value;
        let singular_values_to_keep = truncate_singular_values chi threshold singular_values;
        Sd \<leftarrow> np_diag \<lparr>shape = [length singular_values_to_keep],
                        flat = singular_values_to_keep\<rparr>;
        Ud \<leftarrow> slice_axis2 (data U) (length singular_values_to_keep);
        Vd \<leftarrow> slice_axis0 (data V) (length singular_values_to_keep);
        Some (norm1, U\<lparr>data := Ud\<rparr>, S\<lparr>data := Sd\<rparr>, V\<lparr>data := Vd\<rparr>)
      })"

text \<open>
  One pass of the loop body of \<open>left_canonise\<close> for a site that is not the last one
  (lines 82-112).  The result is the store and the accumulator after the pass.
\<close>

definition left_canonise_step ::
  "tensor_lib \<Rightarrow> nat \<Rightarrow> int \<Rightarrow> int \<Rightarrow> int \<Rightarrow> real \<Rightarrow> bool \<Rightarrow> complex \<Rightarrow> heap
     \<Rightarrow> (heap \<times> complex) option" where
  "left_canonise_step L self i end chi threshold partial_normalise norm_acc h =
     (let left = left_label (chains h ! self);
          right = right_label (chains h ! self);
          phys = phys_label (chains h ! self)
      in do {
        Ti \<leftarrow> getitem h self i;
        USV \<leftarrow> tensor_svd L Ti [phys, left];
        (norm1, U, S, V) \<leftarrow> truncate_svd chi threshold norm_acc USV;
        h1 \<leftarrow> setitem self i (replace_label [svd_in] [right] U) h;
        Tn \<leftarrow> getitem h1 self (i + 1);
        C1 \<leftarrow> contract V Tn [right] [left];
        h2 \<leftarrow> setitem self (i + 1) C1 h1;
        Tn2 \<leftarrow> getitem h2 self (i + 1);
        C2 \<leftarrow> contract S Tn2 [svd_in] [svd_out];
        h3 \<leftarrow> setitem self (i + 1) C2 h2;
        r \<leftarrow> getitem_ref h3 self (i + 1);
        let h4 = update_tensor r (replace_label [svd_out] [left]) h3;
        Some (if i = end - 1 \<and> \<not> partial_normalise
              then update_tensor r (\<lambda>t. t\<lparr>data := nd_scale (data t) norm1\<rparr>) h4
              else h4,
              norm1)
      })"

text \<open>The last site of the chain (lines 74-80): the data of the tensor object is replaced
  and the method returns.\<close>

definition left_canonise_last :: "nat \<Rightarrow> int \<Rightarrow> bool \<Rightarrow> complex \<Rightarrow> heap \<Rightarrow> heap option" where
  "left_canonise_last self i normalise norm_acc h =
     map_option
       (\<lambda>r. update_tensor r
              (\<lambda>t. t\<lparr>data := (if normalise
                                then nd_divide (data t) (complex_of_real (linalg_norm (data t)))
                                else nd_scale (data t) norm_acc)\<rparr>) h)
       (getitem_ref h self i)"

text \<open>The loop \<open>for i in range(start, end)\<close> of \<open>left_canonise\<close> from position \<open>i\<close> on, with
  the current value of \<open>norm\<close>; \<open>N\<close> is \<open>len(self)\<close>.  The result is the state in which
  the method ends: the store and the value of \<open>norm\<close>.\<close>

function left_canonise_loop ::
  "tensor_lib \<Rightarrow> nat \<Rightarrow> nat \<Rightarrow> int \<Rightarrow> int \<Rightarrow> int \<Rightarrow> real \<Rightarrow> bool \<Rightarrow> bool \<Rightarrow> complex \<Rightarrow> heap
     \<Rightarrow> (heap \<times> complex) option" where
  "left_canonise_loop L self N i end chi threshold normalise partial_normalise norm_acc h =
     (if i < end then
        (if i = int N - 1
         then map_option (\<lambda>h1. (h1, norm_acc)) (left_canonise_last self i normalise norm_acc h)
         else
           (case left_canonise_step L self i end chi threshold partial_normalise norm_acc h of
              None \<Rightarrow> None
            | Some (h1, norm1) \<Rightarrow>
                left_canonise_loop L self N (i + 1) end chi threshold normalise
                  partial_normalise norm1 h1))
      else Some (h, norm_acc))"
  by pat_completeness auto
termination
  by (relation "measure (\<lambda>(L, self, N, i, end, rest). nat (end - i))") auto

text \<open>
  \<open>MatrixProductState.left_canonise\<close> (lines 59-112).  The method has no return value:
  both the \<open>return\<close> at the last site and the end of the loop give \<open>None\<close>, and the value
  of \<open>norm\<close> is dropped.
\<close>

definition left_canonise ::
  "tensor_lib \<Rightarrow> nat \<Rightarrow> int \<Rightarrow> int \<Rightarrow> int \<Rightarrow> real \<Rightarrow> bool \<Rightarrow> bool \<Rightarrow> heap
     \<Rightarrow> (heap \<times> pyvalue) option" where
  "left_canonise L self start end chi threshold normalise partial_normalise h =
     (let N = len h self;
          end1 = (if end = - 1 then int N else end)
      in map_option (\<lambda>(h1, _). (h1, PyNone))
           (left_canonise_loop L self N start end1 chi threshold normalise
              partial_normalise 1 h))"

text \<open>\<open>MatrixProductState.right_canonise\<close> (lines 114-127).\<close>

definition right_canonise ::
  "tensor_lib \<Rightarrow> nat \<Rightarrow> int \<Rightarrow> int \<Rightarrow> int \<Rightarrow> real \<Rightarrow> bool \<Rightarrow> bool \<Rightarrow> heap
     \<Rightarrow> (heap \<times> pyvalue) option" where
  "right_canonise L self start end chi threshold normalise partial_normalise h =
     (let h1 = reverse self h;
          N = len h1 self;
          end1 = (if end = - 1 then int N else end)
      in map_option (\<lambda>(h2, _). (reverse self h2, PyNone))
           (left_canonise L self (int N - end1) (int N - start) 0 threshold normalise
              partial_normalise h1))"

text \<open>
  \<open>rightCanonise\<close> in the words of the specification: reverse the chain, run
  \<open>leftCanonise\<close> on the mirrored interval with the same \<open>chi\<close>, threshold and flags,
  reverse back.
\<close>

definition right_canonise_spec ::
  "tensor_lib \<Rightarrow> nat \<Rightarrow> int \<Rightarrow> int \<Rightarrow> int \<Rightarrow> real \<Rightarrow> bool \<Rightarrow> bool \<Rightarrow> heap
     \<Rightarrow> (heap \<times> pyvalue) option" where
  "right_canonise_spec L self start end chi threshold normalise partial_normalise h =
     (let h1 = reverse self h;
          N = len h1 self;
          end1 = (if end = - 1 then int N else end)
      in map_option (\<lambda>(h2, _). (reverse self h2, PyNone))
           (left_canonise L self (int N - end1) (int N - start) chi threshold normalise
              partial_normalise h1))"

text \<open>
  \<open>MatrixProductState.replace_left_right_phys_labels\<close> (lines 129-145).  The three
  arguments are Python values: \<open>None\<close> is the default of each.
\<close>

definition fill_none :: "label list \<Rightarrow> label list \<Rightarrow> label list" where
  "fill_none new_labels old_labels =
     map (\<lambda>(x, old). if x = None then old else x) (zip new_labels old_labels)"

definition replace_left_right_phys_labels ::
  "nat \<Rightarrow> label \<Rightarrow> label \<Rightarrow> label \<Rightarrow> heap \<Rightarrow> heap" where
  "replace_left_right_phys_labels self new_left_label new_right_label new_phys_label h =
     (let c = chains h ! self;
          old_labels = [left_label c, right_label c, phys_label c];
          new_labels = fill_none [new_left_label, new_right_label, new_phys_label] old_labels;
          h1 = fold (\<lambda>r. update_tensor r (replace_label old_labels new_labels)) (chain_data c) h
      in update_chain self
           (\<lambda>c. c\<lparr>left_label := new_left_label, right_label := new_right_label,
                   phys_label := new_phys_label\<rparr>) h1)"

text \<open>\<open>MatrixProductState.standard_labels\<close> (lines 147-153).\<close>

definition standard_labels :: "nat \<Rightarrow> string \<Rightarrow> heap \<Rightarrow> heap" where
  "standard_labels self suffix h =
     replace_left_right_phys_labels self (Some (''left'' @ suffix)) (Some (''right'' @ suffix))
       (Some (''phys'' @ suffix)) h"

section \<open>Module functions\<close>

text \<open>\<open>left_canonical_form_mps\<close> (lines 252-260).\<close>

definition left_canonical_form_mps ::
  "tensor_lib \<Rightarrow> nat \<Rightarrow> int \<Rightarrow> real \<Rightarrow> bool \<Rightarrow> heap \<Rightarrow> (heap \<times> nat) option" where
  "left_canonical_form_mps L orig_mps chi threshold normalise h =
     (case copy_mps orig_mps h of (h1, mps) \<Rightarrow>
        map_option (\<lambda>(h2, _). (h2, mps))
          (left_canonise L mps 0 (- 1) chi threshold normalise True h1))"

text \<open>\<open>reverse_mps\<close> (lines 262-263).\<close>

definition reverse_mps :: "nat \<Rightarrow> heap \<Rightarrow> heap \<times> nat" where
  "reverse_mps mps h =
     (let c = chains h ! mps
      in new_MatrixProductState (map copy_tensor (rev (chain_tensors h mps)))
           (right_label c) (left_label c) (phys_label c) h)"

text \<open>\<open>right_canonical_form_mps\<close> (lines 265-271).\<close>

definition right_canonical_form_mps ::
  "tensor_lib \<Rightarrow> nat \<Rightarrow> int \<Rightarrow> real \<Rightarrow> bool \<Rightarrow> heap \<Rightarrow> (heap \<times> nat) option" where
  "right_canonical_form_mps L orig_mps chi threshold normalise h =
     (case reverse_mps orig_mps h of (h1, mps) \<Rightarrow>
        map_option (\<lambda>(h2, mps2). reverse_mps mps2 h2)
          (left_canonical_form_mps L mps chi threshold normalise h1))"

text \<open>\<open>svd_compress_mps\<close> (lines 319-322).\<close>

definition svd_compress_mps ::
  "tensor_lib \<Rightarrow> nat \<Rightarrow> int \<Rightarrow> real \<Rightarrow> bool \<Rightarrow> heap \<Rightarrow> (heap \<times> nat) option" where
  "svd_compress_mps L orig_mps chi threshold normalise h = do {
     (h1, mps) \<leftarrow> left_canonical_form_mps L orig_mps 0 threshold normalise h;
     right_canonical_form_mps L mps chi threshold normalise h1
   }"

text \<open>\<open>mps_complex_conjugate\<close> (lines 449-455).\<close>

definition mps_complex_conjugate :: "nat \<Rightarrow> heap \<Rightarrow> heap \<times> nat" where
  "mps_complex_conjugate mps h =
     (case copy_mps mps h of (h1, new_mps) \<Rightarrow>
        (fold (\<lambda>r. update_tensor r conjugate) (chain_data (chains h1 ! new_mps)) h1, new_mps))"

text \<open>
  \<open>check_canonical_form_mps\<close> (lines 273-317).  The test of one site (lines 281-283 and
  288-291), and a scan \<open>for i in ...: if test: first = i; break\<close> over a list of sites.
  The printed report (lines 294-316) changes neither the store nor the result and raises
  no exception; it is not part of the model.
\<close>

definition not_canonised ::
  "tensor \<Rightarrow> tensor \<Rightarrow> label list \<Rightarrow> label list \<Rightarrow> real \<Rightarrow> bool option" where
  "not_canonised t t_cc ls ls_cc threshold = do {
     I \<leftarrow> contract t t_cc ls ls_cc;
     n \<leftarrow> first_dim (data I);
     d \<leftarrow> nd_sub (data I) (identity n);
     Some (linalg_norm d > threshold)
   }"

fun first_site_not_canonised ::
  "heap \<Rightarrow> nat \<Rightarrow> nat \<Rightarrow> label list \<Rightarrow> label list \<Rightarrow> real \<Rightarrow> nat list \<Rightarrow> int \<Rightarrow> int option" where
  "first_site_not_canonised h mps mps_cc ls ls_cc threshold [] first = Some first"
| "first_site_not_canonised h mps mps_cc ls ls_cc threshold (i # rest) first = do {
     t \<leftarrow> getitem h mps (int i);
     t_cc \<leftarrow> getitem h mps_cc (int i);
     b \<leftarrow> not_canonised t t_cc ls ls_cc threshold;
     if b then Some (int i)
     else first_site_not_canonised h mps mps_cc ls ls_cc threshold rest first
   }"

definition check_canonical_form_mps ::
  "nat \<Rightarrow> real \<Rightarrow> heap \<Rightarrow> (heap \<times> int \<times> int) option" where
  "check_canonical_form_mps mps threshold h =
     (case mps_complex_conjugate mps h of (h1, mps_cc) \<Rightarrow>
        let c = chains h1 ! mps; c_cc = chains h1 ! mps_cc; N = len h1 mps
        in do {
          first_site_not_left_canonised \<leftarrow>
            first_site_not_canonised h1 mps mps_cc [phys_label c, left_label c]
              [phys_label c_cc, left_label c_cc] threshold [0..<N - 1] (int N - 1);
          first_site_not_right_canonised \<leftarrow>
            first_site_not_canonised h1 mps mps_cc [phys_label c, right_label c]
              [phys_label c_cc, right_label c_cc] threshold (rev [1..<N]) 0;
          Some (h1, first_site_not_left_canonised, first_site_not_right_canonised)
        })"

text \<open>
  \<open>inner_product_mps\<close> (lines 461-488).  The loop of lines 476-478 over the sites
  \<open>1, ..., len(mps_ket) - 1\<close>, then the function.  The result is the tensor or its data.
\<close>

datatype ip_result = Whole tensor | Data ndarray

fun inner_product_loop :: "heap \<Rightarrow> nat \<Rightarrow> nat \<Rightarrow> tensor \<Rightarrow> nat list \<Rightarrow> tensor option" where
  "inner_product_loop h mps_bra_cc mps_ket left_boundary [] = Some left_boundary"
| "inner_product_loop h mps_bra_cc mps_ket left_boundary (i # rest) =
     (let b = chains h ! mps_bra_cc; k = chains h ! mps_ket
      in do {
        t_bra \<leftarrow> getitem h mps_bra_cc (int i);
        lb1 \<leftarrow> contract left_boundary t_bra [right_label b] [left_label b];
        t_ket \<leftarrow> getitem h mps_ket (int i);
        lb2 \<leftarrow> contract lb1 t_ket [right_label k, phys_label b] [left_label k, phys_label k];
        inner_product_loop h mps_bra_cc mps_ket lb2 rest
      })"

definition inner_product_mps ::
  "nat \<Rightarrow> nat \<Rightarrow> bool \<Rightarrow> bool \<Rightarrow> heap \<Rightarrow> (heap \<times> ip_result) option" where
  "inner_product_mps mps_bra mps_ket complex_conjugate_bra return_whole_tensor h =
     (case (if complex_conjugate_bra then mps_complex_conjugate mps_bra h
            else copy_mps mps_bra h) of
        (h1, mps_bra_cc) \<Rightarrow>
          let k = chains h1 ! mps_ket;
              mps_ket_old_labels = [left_label k, right_label k, phys_label k];
              h2 = standard_labels mps_ket [] h1;
              h3 = standard_labels mps_bra_cc ''_cc'' h2
          in do {
            t_bra \<leftarrow> getitem h3 mps_bra_cc 0;
            t_ket \<leftarrow> getitem h3 mps_ket 0;
            lb0 \<leftarrow> contract t_bra t_ket [phys_label (chains h3 ! mps_bra_cc)]
                     [phys_label (chains h3 ! mps_ket)];
            lb \<leftarrow> inner_product_loop h3 mps_bra_cc mps_ket lb0 [1..<len h3 mps_ket];
            let h4 = replace_left_right_phys_labels mps_ket (mps_ket_old_labels ! 0)
                       (mps_ket_old_labels ! 1) (mps_ket_old_labels ! 2) h3;
            let left_boundary = remove_all_dummy_indices lb;
            Some (h4, if return_whole_tensor then Whole left_boundary
                      else Data (data left_boundary))
          })"

section \<open>Well-formed chains\<close>

text \<open>
  A tensor of a matrix product state has exactly the three role axes, one size per label.
  A chain object of the store is a matrix product state when its three role labels are
  three different strings, its slots refer to different tensor objects of the store, and
  each of them is such a tensor.
\<close>

definition mps_tensor :: "label \<Rightarrow> label \<Rightarrow> label \<Rightarrow> tensor \<Rightarrow> bool" where
  "mps_tensor left right phys t =
     (distinct (labels t) \<and> set (labels t) = {left, right, phys}
      \<and> length (shape (data t)) = length (labels t))"

definition wf_mps :: "heap \<Rightarrow> nat \<Rightarrow> bool" where
  "wf_mps h self =
     (self < length (chains h)
      \<and> (let c = chains h ! self
         in distinct [left_label c, right_label c, phys_label c]
            \<and> list_all (\<lambda>l. l \<noteq> None) [left_label c, right_label c, phys_label c]
            \<and> distinct (chain_data c)
            \<and> list_all (\<lambda>r. r < length (tensors h)) (chain_data c)
            \<and> list_all (mps_tensor (left_label c) (right_label c) (phys_label c))
                 (chain_tensors h self)))"



text \<open>
  A site deviates from the canonical form over the axes \<open>ls\<close> when the test of the scan,
  applied to the tensor and its complex conjugate, is true: the contraction of the two
  over \<open>ls\<close> differs from the identity matrix by a Frobenius norm above the threshold.
\<close>

definition deviates :: "tensor \<Rightarrow> label list \<Rightarrow> real \<Rightarrow> bool" where
  "deviates t ls threshold = (not_canonised t (conjugate t) ls ls threshold = Some True)"

text \<open>The sum of the squared moduli of the entries, the square of \<open>np.linalg.norm\<close>.\<close>

definition norm_squared :: "ndarray \<Rightarrow> real" where
  "norm_squared a = sum_list (map (\<lambda>x. (Re x)\<^sup>2 + (Im x)\<^sup>2) (flat a))"

text \<open>The size of the axis of a tensor that carries a label (the first one, if several do).\<close>

definition dim_of :: "tensor \<Rightarrow> label \<Rightarrow> nat" where
  "dim_of t l = shape (data t) ! index_of (labels t) l"

section \<open>An instance of the parameters\<close>

text \<open>
  An SVD that is exact where it answers.  The tensor is reshaped to a matrix with the row
  labels first; when that matrix is zero off its diagonal and its diagonal is real,
  non-negative and descending, then \<open>U\<close> and \<open>V\<close> are identity blocks and \<open>S\<close> is the
  diagonal.  For every other matrix the decomposition reports no convergence
  (LinAlgError), and a row label that the tensor does not carry raises ValueError.
\<close>

definition nd_transpose :: "ndarray \<Rightarrow> nat list \<Rightarrow> ndarray" where
  "nd_transpose a perm =
     nd_build (map ((!) (shape a)) perm)
       (\<lambda>idx. nd_get a (map (\<lambda>p. idx ! index_of perm p) [0..<length (shape a)]))"

fun descending :: "real list \<Rightarrow> bool" where
  "descending (x # y # ys) = (x \<ge> y \<and> descending (y # ys))"
| "descending _ = True"

definition is_diagonal_matrix :: "nat \<Rightarrow> nat \<Rightarrow> complex list \<Rightarrow> bool" where
  "is_diagonal_matrix m n xs =
     (list_all (\<lambda>k. k div n = k mod n \<or> xs ! k = 0) [0..<m * n]
      \<and> list_all (\<lambda>j. Im (xs ! (j * n + j)) = 0 \<and> Re (xs ! (j * n + j)) \<ge> 0) [0..<min m n]
      \<and> descending (map (\<lambda>j. Re (xs ! (j * n + j))) [0..<min m n]))"

definition diag_svd :: "tensor \<Rightarrow> label list \<Rightarrow> (tensor \<times> tensor \<times> tensor) option" where
  "diag_svd t rows =
     (if \<not> list_all (\<lambda>l. l \<in> set (labels t)) rows then None
      else
        let ir = concat (map (positions (labels t)) rows);
            rest = free_axes (length (labels t)) ir;
            A = nd_transpose (data t) (ir @ rest);
            row_dims = map ((!) (shape (data t))) ir;
            col_dims = map ((!) (shape (data t))) rest;
            m = prod_list row_dims;
            n = prod_list col_dims;
            r = min m n
        in if \<not> is_diagonal_matrix m n (flat A) then None
           else Some
             (\<lparr>labels = map ((!) (labels t)) ir @ [svd_in],
               data = \<lparr>shape = row_dims @ [r],
                       flat = map (\<lambda>k. if k div r = k mod r then 1 else 0) [0..<m * r]\<rparr>\<rparr>,
              \<lparr>labels = [svd_out, svd_in],
               data = \<lparr>shape = [r, r],
                       flat = map (\<lambda>k. if k div r = k mod r then flat A ! ((k div r) * n + k div r)
                                        else 0) [0..<r * r]\<rparr>\<rparr>,
              \<lparr>labels = svd_out # map ((!) (labels t)) rest,
               data = \<lparr>shape = r # col_dims,
                       flat = map (\<lambda>k. if k div n = k mod n then 1 else 0) [0..<r * n]\<rparr>\<rparr>))"

text \<open>A linear solver that is exact where it answers: a diagonal system with no zero on
  the diagonal; every other system is reported as singular.\<close>

definition diag_solve :: "ndarray \<Rightarrow> ndarray \<Rightarrow> ndarray option" where
  "diag_solve A b =
     (case shape A of
        [m, n] \<Rightarrow>
          if m = n \<and> shape b = [n]
             \<and> list_all (\<lambda>k. if k div n = k mod n then flat A ! k \<noteq> 0 else flat A ! k = 0)
                  [0..<n * n]
          then Some \<lparr>shape = [n], flat = map (\<lambda>j. flat b ! j / flat A ! (j * n + j)) [0..<n]\<rparr>
          else None
      | _ \<Rightarrow> None)"

definition diag_lib :: tensor_lib where
  "diag_lib = \<lparr>tensor_svd = diag_svd, linalg_solve = diag_solve, consolidate_indices = (\<lambda>t. t)\<rparr>"

text \<open>A chain of two sites with physical dimension 2 and bond dimension 2, in a store that
  holds nothing else.\<close>

definition site0 :: tensor where
  "site0 = \<lparr>labels = [Some ''phys'', Some ''left'', Some ''right''],
            data = \<lparr>shape = [2, 1, 2], flat = [2, 0, 0, 1]\<rparr>\<rparr>"

definition site1 :: tensor where
  "site1 = \<lparr>labels = [Some ''phys'', Some ''left'', Some ''right''],
            data = \<lparr>shape = [2, 2, 1], flat = [1, 0, 0, 1]\<rparr>\<rparr>"

definition heap0 :: heap where
  "heap0 = fst (new_MatrixProductState [site0, site1] (Some ''left'') (Some ''right'')
                  (Some ''phys'') \<lparr>tensors = [], chains = []\<rparr>)"

text \<open>The same chain of two sites with the role labels \<open>a\<close> (left), \<open>b\<close> (right) and \<open>c\<close>
  (physical).\<close>

definition site0_abc :: tensor where
  "site0_abc = \<lparr>labels = [Some ''c'', Some ''a'', Some ''b''],
                data = \<lparr>shape = [2, 1, 2], flat = [2, 0, 0, 1]\<rparr>\<rparr>"

definition site1_abc :: tensor where
  "site1_abc = \<lparr>labels = [Some ''c'', Some ''a'', Some ''b''],
                data = \<lparr>shape = [2, 2, 1], flat = [1, 0, 0, 1]\<rparr>\<rparr>"

definition heap_abc :: heap where
  "heap_abc = fst (new_MatrixProductState [site0_abc, site1_abc] (Some ''a'') (Some ''b'')
                     (Some ''c'') \<lparr>tensors = [], chains = []\<rparr>)"

text \<open>
  A chain of four sites with the bond dimensions 2, 1, 2.  Sites 0 and 2 are left
  canonical, sites 1 and 3 are not; site 3 is right canonical, sites 0, 1 and 2 are not.
\<close>

definition heap_mixed :: heap where
  "heap_mixed =
     fst (new_MatrixProductState
            [\<lparr>labels = [Some ''phys'', Some ''left'', Some ''right''],
              data = \<lparr>shape = [2, 1, 2], flat = [1, 0, 0, 1]\<rparr>\<rparr>,
             \<lparr>labels = [Some ''phys'', Some ''left'', Some ''right''],
              data = \<lparr>shape = [2, 2, 1], flat = [2, 0, 0, 2]\<rparr>\<rparr>,
             \<lparr>labels = [Some ''phys'', Some ''left'', Some ''right''],
              data = \<lparr>shape = [2, 1, 2], flat = [Complex 0 1, 0, 0, Complex 0 1]\<rparr>\<rparr>,
             \<lparr>labels = [Some ''phys'', Some ''left'', Some ''right''],
              data = \<lparr>shape = [2, 2, 1], flat = [Complex 0 1, 0, 0, Complex 0 1]\<rparr>\<rparr>]
            (Some ''left'') (Some ''right'') (Some ''phys'') \<lparr>tensors = [], chains = []\<rparr>)"

text \<open>The exact SVD of \<open>site0\<close> for the rows \<open>phys, left\<close>, and its truncation to one
  singular value.\<close>

definition svd_U :: tensor where
  "svd_U = \<lparr>labels = [Some ''phys'', Some ''left'', Some ''svd_in''],
            data = \<lparr>shape = [2, 1, 2], flat = [1, 0, 0, 1]\<rparr>\<rparr>"

definition svd_S :: tensor where
  "svd_S = \<lparr>labels = [Some ''svd_out'', Some ''svd_in''],
            data = \<lparr>shape = [2, 2], flat = [2, 0, 0, 1]\<rparr>\<rparr>"

definition svd_V :: tensor where
  "svd_V = \<lparr>labels = [Some ''svd_out'', Some ''right''],
            data = \<lparr>shape = [2, 2], flat = [1, 0, 0, 1]\<rparr>\<rparr>"

definition trunc_U :: tensor where
  "trunc_U = \<lparr>labels = [Some ''phys'', Some ''left'', Some ''svd_in''],
              data = \<lparr>shape = [2, 1, 1], flat = [1, 0]\<rparr>\<rparr>"

definition trunc_S :: tensor where
  "trunc_S = \<lparr>labels = [Some ''svd_out'', Some ''svd_in''],
              data = \<lparr>shape = [1, 1], flat = [1]\<rparr>\<rparr>"

definition trunc_V :: tensor where
  "trunc_V = \<lparr>labels = [Some ''svd_out'', Some ''right''],
              data = \<lparr>shape = [1, 2], flat = [1, 0]\<rparr>\<rparr>"

text \<open>
  The consistency that the rename operation is to keep: each of the three label
  attributes of the chain is a label of every tensor of the chain.
\<close>

definition labels_consistent :: "heap \<Rightarrow> nat \<Rightarrow> bool" where
  "labels_consistent h self =
     (let c = chains h ! self
      in list_all (\<lambda>t. left_label c \<in> set (labels t) \<and> right_label c \<in> set (labels t)
                        \<and> phys_label c \<in> set (labels t))
           (chain_tensors h self))"

text \<open>The store after one pass of the loop body of \<open>left_canonise\<close> at site 0 of \<open>heap0\<close>
  with the cap 1.\<close>

definition heap0_step :: heap where
  "heap0_step =
     \<lparr>tensors =
        [site0, site1,
         \<lparr>labels = [Some ''phys'', Some ''left'', Some ''right''],
           data = \<lparr>shape = [2, 1, 1], flat = [1, 0]\<rparr>\<rparr>,
         \<lparr>labels = [Some ''svd_out'', Some ''phys'', Some ''right''],
           data = \<lparr>shape = [1, 2, 1], flat = [1, 0]\<rparr>\<rparr>,
         \<lparr>labels = [Some ''left'', Some ''phys'', Some ''right''],
           data = \<lparr>shape = [1, 2, 1], flat = [1, 0]\<rparr>\<rparr>],
      chains = [\<lparr>chain_data = [2, 4], left_label = Some ''left'',
                 right_label = Some ''right'', phys_label = Some ''phys''\<rparr>]\<rparr>"

section \<open>Properties\<close>

subsection \<open>Arrays\<close>

lemma length_all_indices: "length (all_indices s) = prod_list s"
proof (induction s)
  case Nil
  then show ?case by simp
next
  case (Cons d ds)
  have "length (concat (map (\<lambda>i. map ((#) i) (all_indices ds)) [0..<n])) = n * prod_list ds" for n
    by (induction n) (simp_all add: Cons.IH)
  then show ?case by simp
qed

lemma nth_concat_blocks:
  assumes "\<And>i. i < d \<Longrightarrow> length (f i) = m" "i < d" "j < m"
  shows "concat (map f [0..<d]) ! (i * m + j) = f i ! j"
  using assms
proof (induction d)
  case 0
  then show ?case by simp
next
  case (Suc d)
  have len: "length (concat (map f [0..<d])) = d * m"
    using Suc.prems(1) by (induction d) simp_all
  show ?case
  proof (cases "i < d")
    case True
    then have "i * m + j < d * m"
      using Suc.prems(3)
      by (metis add.commute add_less_cancel_left less_le_trans mult_Suc Suc_leI mult_le_mono1)
    with Suc True len show ?thesis by (simp add: nth_append)
  next
    case False
    with Suc.prems have "i = d" by simp
    with len Suc.prems show ?thesis by (simp add: nth_append)
  qed
qed

lemma offset_bound:
  "list_all2 (<) idx s \<Longrightarrow> offset s idx < prod_list s"
proof (induction s arbitrary: idx)
  case Nil
  then show ?case by simp
next
  case (Cons d ds)
  then obtain i js where idx: "idx = i # js" "i < d" "list_all2 (<) js ds"
    by (auto simp: list_all2_Cons2)
  then have "offset ds js < prod_list ds" using Cons.IH by simp
  then have "i * prod_list ds + offset ds js < Suc i * prod_list ds" by simp
  also have "\<dots> \<le> d * prod_list ds" using idx(2) by (intro mult_le_mono1) simp
  finally show ?case using idx by simp
qed

lemma all_indices_nth_offset:
  "list_all2 (<) idx s \<Longrightarrow> all_indices s ! offset s idx = idx"
proof (induction s arbitrary: idx)
  case Nil
  then show ?case by simp
next
  case (Cons d ds)
  then obtain i js where idx: "idx = i # js" "i < d" "list_all2 (<) js ds"
    by (auto simp: list_all2_Cons2)
  have "concat (map (\<lambda>i. map ((#) i) (all_indices ds)) [0..<d]) ! (i * prod_list ds + offset ds js)
        = map ((#) i) (all_indices ds) ! offset ds js"
    by (rule nth_concat_blocks) (simp_all add: length_all_indices idx offset_bound)
  also have "\<dots> = i # js"
    using idx Cons.IH by (simp add: length_all_indices offset_bound)
  finally show ?case using idx by simp
qed

lemma nd_get_nd_build:
  "list_all2 (<) idx s \<Longrightarrow> nd_get (nd_build s f) idx = f idx"
  by (simp add: nd_get_def nd_build_def length_all_indices offset_bound all_indices_nth_offset)

lemma slice_upto_filter: "list_all P xs \<Longrightarrow> list_all P (slice_upto chi xs)"
  by (auto simp: slice_upto_def list_all_iff dest: in_set_takeD)

lemma truncate_kept_above:
  "list_all (\<lambda>x. Re x > threshold) (truncate_singular_values chi threshold svs)"
  by (auto simp: truncate_singular_values_def Let_def slice_upto_def list_all_iff dest: in_set_takeD)

lemma shape_nd_build: "shape (nd_build s f) = s"
  by (simp add: nd_build_def)

subsection \<open>Truncation of the singular values\<close>

lemma truncate_svd_rule:
  assumes "truncate_svd chi threshold norm_acc (U, S, V) = Some (norm1, U1, S1, V1)"
  shows "\<exists>sv largest kept.
           np_diag (data S) = Some sv \<and> first_entry (flat sv) = Some largest
         \<and> norm1 = norm_acc * largest
         \<and> kept = truncate_singular_values chi threshold (map (\<lambda>x. x / largest) (flat sv))
         \<and> list_all (\<lambda>x. Re x > threshold) kept
         \<and> (chi = 0 \<longrightarrow> kept = filter (\<lambda>x. Re x > threshold) (map (\<lambda>x. x / largest) (flat sv)))
         \<and> (0 < chi \<longrightarrow> kept = take (nat chi)
                (filter (\<lambda>x. Re x > threshold) (map (\<lambda>x. x / largest) (flat sv)))
              \<and> length kept \<le> nat chi)
         \<and> np_diag \<lparr>shape = [length kept], flat = kept\<rparr> = Some (data S1)
         \<and> shape (data U1) = (shape (data U))[2 := min (shape (data U) ! 2) (length kept)]
         \<and> shape (data V1) = (shape (data V))[0 := min (shape (data V) ! 0) (length kept)]
         \<and> (\<forall>idx. list_all2 (<) idx (shape (data U1)) \<longrightarrow> nd_get (data U1) idx = nd_get (data U) idx)
         \<and> (\<forall>idx. list_all2 (<) idx (shape (data V1)) \<longrightarrow> nd_get (data V1) idx = nd_get (data V) idx)
         \<and> labels U1 = labels U \<and> labels S1 = labels S \<and> labels V1 = labels V"
proof -
  from assms obtain sv largest Sd Ud Vd where
    sv: "np_diag (data S) = Some sv" and la: "first_entry (flat sv) = Some largest"
    and Sd: "np_diag \<lparr>shape = [length (truncate_singular_values chi threshold
                 (map (\<lambda>x. x / largest) (flat sv)))],
               flat = truncate_singular_values chi threshold
                 (map (\<lambda>x. x / largest) (flat sv))\<rparr> = Some Sd"
    and Ud: "slice_axis2 (data U) (length (truncate_singular_values chi threshold
                 (map (\<lambda>x. x / largest) (flat sv)))) = Some Ud"
    and Vd: "slice_axis0 (data V) (length (truncate_singular_values chi threshold
                 (map (\<lambda>x. x / largest) (flat sv)))) = Some Vd"
    and res: "norm1 = norm_acc * largest" "U1 = U\<lparr>data := Ud\<rparr>" "S1 = S\<lparr>data := Sd\<rparr>"
             "V1 = V\<lparr>data := Vd\<rparr>"
    by (auto simp: truncate_svd_def Let_def split: Option.bind_splits)
  let ?kept = "truncate_singular_values chi threshold (map (\<lambda>x. x / largest) (flat sv))"
  have U: "Ud = nd_build ((shape (data U))[2 := min (shape (data U) ! 2) (length ?kept)]) (nd_get (data U))"
    using Ud by (simp add: slice_axis2_def split: if_splits)
  have V: "Vd = nd_build ((shape (data V))[0 := min (shape (data V) ! 0) (length ?kept)]) (nd_get (data V))"
    using Vd by (simp add: slice_axis0_def split: if_splits)
  have chi0: "chi = 0 \<longrightarrow> ?kept = filter (\<lambda>x. Re x > threshold) (map (\<lambda>x. x / largest) (flat sv))"
    by (simp add: truncate_singular_values_def)
  have chipos: "0 < chi \<longrightarrow> ?kept = take (nat chi)
                (filter (\<lambda>x. Re x > threshold) (map (\<lambda>x. x / largest) (flat sv)))
              \<and> length ?kept \<le> nat chi"
    by (simp add: truncate_singular_values_def slice_upto_def)
  have getU: "\<forall>idx. list_all2 (<) idx (shape (data U1)) \<longrightarrow> nd_get (data U1) idx = nd_get (data U) idx"
    using res U by (simp add: nd_get_nd_build shape_nd_build)
  have getV: "\<forall>idx. list_all2 (<) idx (shape (data V1)) \<longrightarrow> nd_get (data V1) idx = nd_get (data V) idx"
    using res V by (simp add: nd_get_nd_build shape_nd_build)
  show ?thesis
    apply (rule exI[of _ sv], rule exI[of _ largest], rule exI[of _ ?kept])
    using sv la res Sd chi0 chipos getU getV truncate_kept_above[of threshold chi]
    by (simp add: U V shape_nd_build)
qed

subsection \<open>The loop body of left\_canonise\<close>

lemma descending_first_max: "descending (x # xs) \<Longrightarrow> list_all (\<lambda>y. y \<le> x) (x # xs)"
proof (induction xs arbitrary: x)
  case Nil
  then show ?case by simp
next
  case (Cons a xs)
  then have "a \<le> x" "list_all (\<lambda>y. y \<le> a) (a # xs)" by simp_all
  then show ?case by (auto simp: list_all_iff)
qed

lemma py_index_nonneg:
  "0 \<le> i \<Longrightarrow> py_index n i = (if i < int n then Some (nat i) else None)"
  by (simp add: py_index_def)

lemma getitem_nonneg:
  "0 \<le> i \<Longrightarrow>
   getitem h self i = (if i < int (len h self)
                       then Some (tensors h ! (chain_data (chains h ! self) ! nat i)) else None)"
  by (simp add: getitem_def getitem_ref_def py_index_nonneg)

lemma getitem_ref_nonneg:
  "0 \<le> i \<Longrightarrow>
   getitem_ref h self i = (if i < int (len h self)
                       then Some (chain_data (chains h ! self) ! nat i) else None)"
  by (simp add: getitem_ref_def py_index_nonneg)

lemma setitem_nonneg:
  assumes "self < length (chains h)" "0 \<le> i" "setitem self i t h = Some h1"
  shows "i < int (len h self)"
    and "tensors h1 = tensors h @ [t]"
    and "chains h1 = (chains h)[self := (chains h ! self)
           \<lparr>chain_data := (chain_data (chains h ! self))[nat i := length (tensors h)]\<rparr>]"
    and "len h1 self = len h self"
  using assms
  by (auto simp: setitem_def py_index_nonneg alloc_tensor_def update_chain_def len_def
           split: if_splits)


lemma update_third: "(xs @ [a, b, c])[Suc (Suc (length xs)) := v] = xs @ [a, b, v]"
  by (simp add: list_update_append)

lemma nth_third: "(xs @ [a, b, c]) ! Suc (Suc (length xs)) = c"
  by (simp add: nth_append)

lemma left_canonise_step_effect:
  assumes step: "left_canonise_step L self i stop chi threshold partial_normalise norm_acc h
                   = Some (h', norm1)"
    and self: "self < length (chains h)" and i0: "0 \<le> i"
    and refs: "list_all (\<lambda>r. r < length (tensors h)) (chain_data (chains h ! self))"
  shows "\<exists>Ti Tn U S V U1 S1 V1 C1 C2.
           getitem h self i = Some Ti \<and> getitem h self (i + 1) = Some Tn
         \<and> tensor_svd L Ti [phys_label (chains h ! self), left_label (chains h ! self)]
             = Some (U, S, V)
         \<and> truncate_svd chi threshold norm_acc (U, S, V) = Some (norm1, U1, S1, V1)
         \<and> contract V1 Tn [right_label (chains h ! self)] [left_label (chains h ! self)] = Some C1
         \<and> contract S1 C1 [svd_in] [svd_out] = Some C2
         \<and> i + 1 < int (len h self)
         \<and> tensors h' = tensors h @
               [replace_label [svd_in] [right_label (chains h ! self)] U1, C1,
                (if i = stop - 1 \<and> \<not> partial_normalise
                 then (\<lambda>t. t\<lparr>data := nd_scale (data t) norm1\<rparr>) else (\<lambda>t. t))
                  (replace_label [svd_out] [left_label (chains h ! self)] C2)]
         \<and> chains h' = (chains h)[self := (chains h ! self)
               \<lparr>chain_data := (chain_data (chains h ! self))
                   [nat i := length (tensors h), nat (i + 1) := length (tensors h) + 2]\<rparr>]"
proof -
  let ?c = "chains h ! self"
  let ?n = "length (tensors h)"
  from step obtain Ti U S V U1 S1 V1 h1 Tn C1 h2 Tn2 C2 h3 r where
    Ti: "getitem h self i = Some Ti"
    and svd: "tensor_svd L Ti [phys_label ?c, left_label ?c] = Some (U, S, V)"
    and tr: "truncate_svd chi threshold norm_acc (U, S, V) = Some (norm1, U1, S1, V1)"
    and h1: "setitem self i (replace_label [svd_in] [right_label ?c] U1) h = Some h1"
    and Tn: "getitem h1 self (i + 1) = Some Tn"
    and C1: "contract V1 Tn [right_label ?c] [left_label ?c] = Some C1"
    and h2: "setitem self (i + 1) C1 h1 = Some h2"
    and Tn2: "getitem h2 self (i + 1) = Some Tn2"
    and C2: "contract S1 Tn2 [svd_in] [svd_out] = Some C2"
    and h3: "setitem self (i + 1) C2 h2 = Some h3"
    and r: "getitem_ref h3 self (i + 1) = Some r"
    and h': "h' = (if i = stop - 1 \<and> \<not> partial_normalise
                  then update_tensor r (\<lambda>t. t\<lparr>data := nd_scale (data t) norm1\<rparr>)
                         (update_tensor r (replace_label [svd_out] [left_label ?c]) h3)
                  else update_tensor r (replace_label [svd_out] [left_label ?c]) h3)"
    by (auto simp: left_canonise_step_def Let_def split: Option.bind_splits)
  have i1: "0 \<le> i + 1" using i0 by simp
  note s1 = setitem_nonneg[OF self i0 h1]
  have self1: "self < length (chains h1)" using self s1(3) by simp
  note s2 = setitem_nonneg[OF self1 i1 h2]
  have self2: "self < length (chains h2)" using self1 s2(3) by simp
  note s3 = setitem_nonneg[OF self2 i1 h3]
  have lt: "i + 1 < int (len h self)" using s2(1) s1(4) by simp
  have ne: "nat i \<noteq> nat (i + 1)" using i0 by simp
  have lens: "nat i < length (chain_data ?c)" "nat (i + 1) < length (chain_data ?c)"
    using lt i0 by (simp_all add: len_def)
  have cd1: "chain_data (chains h1 ! self) = (chain_data ?c)[nat i := ?n]"
    using self by (simp add: s1(3))
  have cd2: "chain_data (chains h2 ! self) = (chain_data ?c)[nat i := ?n, nat (i + 1) := ?n + 1]"
    using self by (simp add: s2(3) s1(3) s1(2))
  have cd3: "chain_data (chains h3 ! self) = (chain_data ?c)[nat i := ?n, nat (i + 1) := ?n + 2]"
    using self by (simp add: s3(3) s2(3) s1(3) s1(2) s2(2))
  have t3: "tensors h3 = tensors h @ [replace_label [svd_in] [right_label ?c] U1, C1, C2]"
    by (simp add: s3(2) s2(2) s1(2))
  have ref_old: "chain_data ?c ! nat (i + 1) < ?n"
    using refs lens by (simp add: list_all_iff)
  have Tn_old: "getitem h self (i + 1) = Some Tn"
    using Tn i1 lt ne lens ref_old
    by (simp add: getitem_nonneg s1(4) cd1 s1(2) nth_append)
  have Tn2_eq: "Tn2 = C1"
    using Tn2 i1 lt lens by (simp add: getitem_nonneg s2(4) s1(4) cd2 s2(2) s1(2) nth_append)
  have r_eq: "r = ?n + 2"
    using r i1 lt lens by (simp add: getitem_ref_nonneg s3(4) s2(4) s1(4) cd3)
  have ch3: "chains h3 = (chains h)[self := ?c\<lparr>chain_data := (chain_data ?c)
                 [nat i := ?n, nat (i + 1) := ?n + 2]\<rparr>]"
    using self by (simp add: s3(3) s2(3) s1(3) s1(2) s2(2))
  have th': "tensors h' = tensors h @
               [replace_label [svd_in] [right_label ?c] U1, C1,
                (if i = stop - 1 \<and> \<not> partial_normalise
                 then (\<lambda>t. t\<lparr>data := nd_scale (data t) norm1\<rparr>) else (\<lambda>t. t))
                  (replace_label [svd_out] [left_label ?c] C2)]"
    by (simp add: h' r_eq update_tensor_def t3 update_third nth_third)
  have ch': "chains h' = chains h3" by (simp add: h' update_tensor_def)
  show ?thesis
    using Ti Tn_old svd tr C1 C2[unfolded Tn2_eq] lt th' ch'[unfolded ch3] by blast
qed


text \<open>
  Claim C3.  A pass of the loop body of \<open>left_canonise\<close> at a site \<open>i\<close> that is not the
  last one decomposes the tensor of site \<open>i\<close>, divides the singular values by the first
  one (the largest, when the spectrum is descending as the SVD gives it) and multiplies
  the accumulator by it.  The values it keeps are all strictly greater than the
  threshold: with \<open>chi = 0\<close> exactly the normalised values above the threshold, with
  \<open>chi > 0\<close> the first \<open>chi\<close> of those (the cap is applied to the filtered list, so it
  restores nothing).  \<open>S\<close> becomes the diagonal matrix of the kept values, the bond axes of
  \<open>U\<close> (the third) and of \<open>V\<close> (the first) are cut to the kept count with the remaining
  entries and all labels unchanged; site \<open>i\<close> becomes the truncated \<open>U\<close> and site \<open>i + 1\<close>
  the contraction of the truncated \<open>S\<close> and \<open>V\<close> into the old site \<open>i + 1\<close>.
\<close>

theorem left_canonise_step_truncates:
  assumes step: "left_canonise_step L self i stop chi threshold partial_normalise norm_acc h
                   = Some (h', norm1)"
    and self: "self < length (chains h)" and i0: "0 \<le> i"
    and refs: "list_all (\<lambda>r. r < length (tensors h)) (chain_data (chains h ! self))"
  shows "\<exists>Ti Tn U S V sv largest kept U1 S1 V1 C1 C2.
           getitem h self i = Some Ti \<and> getitem h self (i + 1) = Some Tn
         \<and> tensor_svd L Ti [phys_label (chains h ! self), left_label (chains h ! self)]
             = Some (U, S, V)
         \<and> np_diag (data S) = Some sv \<and> first_entry (flat sv) = Some largest
         \<and> (descending (map Re (flat sv)) \<longrightarrow> list_all (\<lambda>x. Re x \<le> Re largest) (flat sv))
         \<and> norm1 = norm_acc * largest
         \<and> list_all (\<lambda>x. Re x > threshold) kept
         \<and> (chi = 0 \<longrightarrow> kept = filter (\<lambda>x. Re x > threshold) (map (\<lambda>x. x / largest) (flat sv)))
         \<and> (0 < chi \<longrightarrow> kept = take (nat chi)
                (filter (\<lambda>x. Re x > threshold) (map (\<lambda>x. x / largest) (flat sv)))
              \<and> length kept \<le> nat chi)
         \<and> np_diag \<lparr>shape = [length kept], flat = kept\<rparr> = Some (data S1)
         \<and> shape (data U1) = (shape (data U))[2 := min (shape (data U) ! 2) (length kept)]
         \<and> shape (data V1) = (shape (data V))[0 := min (shape (data V) ! 0) (length kept)]
         \<and> (\<forall>idx. list_all2 (<) idx (shape (data U1)) \<longrightarrow> nd_get (data U1) idx = nd_get (data U) idx)
         \<and> (\<forall>idx. list_all2 (<) idx (shape (data V1)) \<longrightarrow> nd_get (data V1) idx = nd_get (data V) idx)
         \<and> labels U1 = labels U \<and> labels S1 = labels S \<and> labels V1 = labels V
         \<and> getitem h' self i = Some (replace_label [svd_in] [right_label (chains h ! self)] U1)
         \<and> contract V1 Tn [right_label (chains h ! self)] [left_label (chains h ! self)] = Some C1
         \<and> contract S1 C1 [svd_in] [svd_out] = Some C2
         \<and> getitem h' self (i + 1)
             = Some ((if i = stop - 1 \<and> \<not> partial_normalise
                      then (\<lambda>t. t\<lparr>data := nd_scale (data t) norm1\<rparr>) else (\<lambda>t. t))
                       (replace_label [svd_out] [left_label (chains h ! self)] C2))"
proof -
  let ?c = "chains h ! self"
  let ?n = "length (tensors h)"
  from left_canonise_step_effect[OF step self i0 refs]
  obtain Ti Tn U S V U1 S1 V1 C1 C2 where
    e: "getitem h self i = Some Ti" "getitem h self (i + 1) = Some Tn"
       "tensor_svd L Ti [phys_label ?c, left_label ?c] = Some (U, S, V)"
       "contract V1 Tn [right_label ?c] [left_label ?c] = Some C1"
       "contract S1 C1 [svd_in] [svd_out] = Some C2"
    and tr: "truncate_svd chi threshold norm_acc (U, S, V) = Some (norm1, U1, S1, V1)"
    and lt: "i + 1 < int (len h self)"
    and th': "tensors h' = tensors h @
               [replace_label [svd_in] [right_label ?c] U1, C1,
                (if i = stop - 1 \<and> \<not> partial_normalise
                 then (\<lambda>t. t\<lparr>data := nd_scale (data t) norm1\<rparr>) else (\<lambda>t. t))
                  (replace_label [svd_out] [left_label ?c] C2)]"
    and ch': "chains h' = (chains h)[self := ?c
               \<lparr>chain_data := (chain_data ?c)[nat i := ?n, nat (i + 1) := ?n + 2]\<rparr>]"
    by blast
  from truncate_svd_rule[OF tr] obtain sv largest kept where
    k: "np_diag (data S) = Some sv" "first_entry (flat sv) = Some largest"
       "norm1 = norm_acc * largest"
       "list_all (\<lambda>x. Re x > threshold) kept"
       "chi = 0 \<longrightarrow> kept = filter (\<lambda>x. Re x > threshold) (map (\<lambda>x. x / largest) (flat sv))"
       "0 < chi \<longrightarrow> kept = take (nat chi)
                (filter (\<lambda>x. Re x > threshold) (map (\<lambda>x. x / largest) (flat sv)))
              \<and> length kept \<le> nat chi"
       "np_diag \<lparr>shape = [length kept], flat = kept\<rparr> = Some (data S1)"
       "shape (data U1) = (shape (data U))[2 := min (shape (data U) ! 2) (length kept)]"
       "shape (data V1) = (shape (data V))[0 := min (shape (data V) ! 0) (length kept)]"
       "\<forall>idx. list_all2 (<) idx (shape (data U1)) \<longrightarrow> nd_get (data U1) idx = nd_get (data U) idx"
       "\<forall>idx. list_all2 (<) idx (shape (data V1)) \<longrightarrow> nd_get (data V1) idx = nd_get (data V) idx"
       "labels U1 = labels U" "labels S1 = labels S" "labels V1 = labels V"
    by blast
  have mx: "descending (map Re (flat sv)) \<longrightarrow> list_all (\<lambda>x. Re x \<le> Re largest) (flat sv)"
  proof
    assume d: "descending (map Re (flat sv))"
    from k(2) obtain rest where f: "flat sv = largest # rest"
      by (auto simp: first_entry_def split: list.splits)
    from d f have "list_all (\<lambda>y. y \<le> Re largest) (Re largest # map Re rest)"
      using descending_first_max[of "Re largest" "map Re rest"] by simp
    then show "list_all (\<lambda>x. Re x \<le> Re largest) (flat sv)"
      using f by (simp add: list_all_iff)
  qed
  have lens: "nat i < length (chain_data ?c)" "nat (i + 1) < length (chain_data ?c)"
    "nat i \<noteq> nat (i + 1)"
    using lt i0 by (simp_all add: len_def)
  have len': "len h' self = len h self" using self by (simp add: len_def ch')
  have gi: "getitem h' self i = Some (replace_label [svd_in] [right_label ?c] U1)"
    using i0 lt lens self by (simp add: getitem_nonneg len' ch' th' nth_append)
  have gn: "getitem h' self (i + 1)
             = Some ((if i = stop - 1 \<and> \<not> partial_normalise
                      then (\<lambda>t. t\<lparr>data := nd_scale (data t) norm1\<rparr>) else (\<lambda>t. t))
                       (replace_label [svd_out] [left_label ?c] C2))"
    using i0 lt lens self by (simp add: getitem_nonneg len' ch' th' nth_append)
  show ?thesis
    apply (rule exI[of _ Ti], rule exI[of _ Tn], rule exI[of _ U], rule exI[of _ S],
           rule exI[of _ V], rule exI[of _ sv], rule exI[of _ largest], rule exI[of _ kept],
           rule exI[of _ U1], rule exI[of _ S1], rule exI[of _ V1], rule exI[of _ C1],
           rule exI[of _ C2])
    by (intro conjI e k mx gi gn)
qed

text \<open>The theorem at the first site of the two-site chain with the cap 1: of the two
  normalised singular values 1 and 1/2 only the first is kept, and the bond between the
  sites shrinks from 2 to 1.\<close>

theorem left_canonise_step_truncates_witness:
  "left_canonise_step diag_lib 0 0 2 1 (1 / 10 ^ 14) True 1 heap0 = Some (heap0_step, 2)
   \<and> (0::nat) < length (chains heap0)
   \<and> list_all (\<lambda>r. r < length (tensors heap0)) (chain_data (chains heap0 ! 0))
   \<and> (\<exists>Ti Tn U S V sv largest kept U1 S1 V1 C1 C2.
           getitem heap0 0 0 = Some Ti \<and> getitem heap0 0 (0 + 1) = Some Tn
         \<and> tensor_svd diag_lib Ti [phys_label (chains heap0 ! 0), left_label (chains heap0 ! 0)]
             = Some (U, S, V)
         \<and> np_diag (data S) = Some sv \<and> first_entry (flat sv) = Some largest
         \<and> (descending (map Re (flat sv)) \<longrightarrow> list_all (\<lambda>x. Re x \<le> Re largest) (flat sv))
         \<and> 2 = 1 * largest
         \<and> list_all (\<lambda>x. Re x > (1 / 10 ^ 14)) kept
         \<and> ((1::int) = 0 \<longrightarrow> kept = filter (\<lambda>x. Re x > (1 / 10 ^ 14)) (map (\<lambda>x. x / largest) (flat sv)))
         \<and> (0 < (1::int) \<longrightarrow> kept = take (nat (1::int))
                (filter (\<lambda>x. Re x > (1 / 10 ^ 14)) (map (\<lambda>x. x / largest) (flat sv)))
              \<and> length kept \<le> nat (1::int))
         \<and> np_diag \<lparr>shape = [length kept], flat = kept\<rparr> = Some (data S1)
         \<and> shape (data U1) = (shape (data U))[2 := min (shape (data U) ! 2) (length kept)]
         \<and> shape (data V1) = (shape (data V))[0 := min (shape (data V) ! 0) (length kept)]
         \<and> (\<forall>idx. list_all2 (<) idx (shape (data U1)) \<longrightarrow> nd_get (data U1) idx = nd_get (data U) idx)
         \<and> (\<forall>idx. list_all2 (<) idx (shape (data V1)) \<longrightarrow> nd_get (data V1) idx = nd_get (data V) idx)
         \<and> labels U1 = labels U \<and> labels S1 = labels S \<and> labels V1 = labels V
         \<and> getitem heap0_step 0 0 = Some (replace_label [svd_in] [right_label (chains heap0 ! 0)] U1)
         \<and> contract V1 Tn [right_label (chains heap0 ! 0)] [left_label (chains heap0 ! 0)] = Some C1
         \<and> contract S1 C1 [svd_in] [svd_out] = Some C2
         \<and> getitem heap0_step 0 (0 + 1)
             = Some ((if (0::int) = 2 - 1 \<and> \<not> True
                      then (\<lambda>t. t\<lparr>data := nd_scale (data t) 2\<rparr>) else (\<lambda>t. t))
                       (replace_label [svd_out] [left_label (chains heap0 ! 0)] C2)))"
proof -
  have step: "left_canonise_step diag_lib 0 0 2 1 (1 / 10 ^ 14) True 1 heap0 = Some (heap0_step, 2)"
    by code_simp
  have self: "(0::nat) < length (chains heap0)" by code_simp
  have refs: "list_all (\<lambda>r. r < length (tensors heap0)) (chain_data (chains heap0 ! 0))"
    by code_simp
  from left_canonise_step_truncates[OF step self _ refs] step self refs show ?thesis by simp
qed

subsection \<open>The accumulated norm\<close>











subsection \<open>Right canonisation and the bond cap\<close>

text \<open>
  Claim C1.  \<open>right_canonise\<close> calls \<open>left_canonise\<close> with \<open>chi = 0\<close>, whatever its own
  argument \<open>chi\<close> is (line 125), so it is the procedure of the specification for the cap 0
  only.  On the two-site chain with cap 1 the bond between the sites keeps dimension 2,
  where the procedure of the specification cuts it to 1.
\<close>

theorem right_canonise_drops_chi:
  "right_canonise L self start end chi threshold normalise partial_normalise h
     = right_canonise_spec L self start end 0 threshold normalise partial_normalise h
   \<and> map_option (\<lambda>(h, r). map (\<lambda>t. shape (data t)) (chain_tensors h 0))
       (right_canonise diag_lib 0 0 (- 1) 1 (1 / 10 ^ 14) False False heap0)
      = Some [[2, 2, 1], [2, 1, 2]]
   \<and> map_option (\<lambda>(h, r). map (\<lambda>t. shape (data t)) (chain_tensors h 0))
       (right_canonise_spec diag_lib 0 0 (- 1) 1 (1 / 10 ^ 14) False False heap0)
      = Some [[1, 2, 1], [2, 1, 1]]"
proof -
  have "right_canonise L self start end chi threshold normalise partial_normalise h
     = right_canonise_spec L self start end 0 threshold normalise partial_normalise h"
    by (simp add: right_canonise_def right_canonise_spec_def)
  moreover have "map_option (\<lambda>(h, r). map (\<lambda>t. shape (data t)) (chain_tensors h 0))
       (right_canonise diag_lib 0 0 (- 1) 1 (1 / 10 ^ 14) False False heap0)
      = Some [[2, 2, 1], [2, 1, 2]]"
    by code_simp
  moreover have "map_option (\<lambda>(h, r). map (\<lambda>t. shape (data t)) (chain_tensors h 0))
       (right_canonise_spec diag_lib 0 0 (- 1) 1 (1 / 10 ^ 14) False False heap0)
      = Some [[1, 2, 1], [2, 1, 1]]"
    by code_simp
  ultimately show ?thesis by simp
qed

subsection \<open>Renaming the role labels\<close>

text \<open>
  Claim C5.  \<open>replace_left_right_phys_labels\<close> keeps the old label of a role on the tensors
  when the new label is \<open>None\<close>, but it assigns the arguments as they are to the
  attributes (lines 143-145).  After renaming only the left label of the two-site chain,
  the tensors still carry \<open>right\<close> and \<open>phys\<close> while \<open>right_label\<close> and \<open>phys_label\<close> are
  \<open>None\<close>: the attributes no longer name the axes of the tensors.
\<close>

theorem rename_with_none_inconsistent:
  "labels_consistent heap0 0
   \<and> \<not> labels_consistent (replace_left_right_phys_labels 0 (Some ''a'') None None heap0) 0
   \<and> chains (replace_left_right_phys_labels 0 (Some ''a'') None None heap0)
       = [\<lparr>chain_data = [0, 1], left_label = Some ''a'', right_label = None,
           phys_label = None\<rparr>]
   \<and> map labels (chain_tensors (replace_left_right_phys_labels 0 (Some ''a'') None None heap0) 0)
       = [[Some ''phys'', Some ''a'', Some ''right''], [Some ''phys'', Some ''a'', Some ''right'']]"
  by code_simp

subsection \<open>The store\<close>

lemma chains_update_tensor [simp]: "chains (update_tensor r f h) = chains h"
  by (simp add: update_tensor_def)

lemma length_tensors_update_tensor [simp]:
  "length (tensors (update_tensor r f h)) = length (tensors h)"
  by (simp add: update_tensor_def)

lemma nth_tensors_update_tensor:
  "i < length (tensors h) \<Longrightarrow>
   tensors (update_tensor r f h) ! i = (if i = r then f (tensors h ! i) else tensors h ! i)"
  by (simp add: update_tensor_def nth_list_update)

lemma chains_fold_update [simp]: "chains (fold (\<lambda>r. update_tensor r f) rs h) = chains h"
  by (induction rs arbitrary: h) simp_all

lemma length_tensors_fold_update [simp]:
  "length (tensors (fold (\<lambda>r. update_tensor r f) rs h)) = length (tensors h)"
  by (induction rs arbitrary: h) simp_all

lemma nth_tensors_fold_update:
  "distinct rs \<Longrightarrow> i < length (tensors h) \<Longrightarrow>
   tensors (fold (\<lambda>r. update_tensor r f) rs h) ! i
     = (if i \<in> set rs then f (tensors h ! i) else tensors h ! i)"
  by (induction rs arbitrary: h) (auto simp: nth_tensors_update_tensor)

lemma tensors_update_chain [simp]: "tensors (update_chain self f h) = tensors h"
  by (simp add: update_chain_def)

lemma chains_update_chain: "chains (update_chain self f h) = (chains h)[self := f (chains h ! self)]"
  by (simp add: update_chain_def)

text \<open>The store after the constructor.\<close>

lemma new_MatrixProductState_store:
  "new_MatrixProductState ts left right phys h = (h1, r) \<Longrightarrow>
   tensors h1 = tensors h @ map (init_tensor left right) ts
   \<and> chains h1 = chains h @ [\<lparr>chain_data = [length (tensors h)..<length (tensors h) + length ts],
                               left_label = left, right_label = right, phys_label = phys\<rparr>]
   \<and> r = length (chains h)"
  by (auto simp: new_MatrixProductState_def Let_def)

lemma copy_mps_store:
  "copy_mps self h = (h1, r) \<Longrightarrow>
   \<exists>new c. tensors h1 = tensors h @ new \<and> chains h1 = chains h @ [c] \<and> r = length (chains h)
     \<and> chain_data c = [length (tensors h)..<length (tensors h) + length new]"
  by (auto simp: copy_mps_def Let_def dest!: new_MatrixProductState_store)

lemma mps_complex_conjugate_store:
  assumes "mps_complex_conjugate self h = (h1, r)"
  shows "\<exists>new c. tensors h1 = tensors h @ new \<and> chains h1 = chains h @ [c] \<and> r = length (chains h)
     \<and> chain_data c = [length (tensors h)..<length (tensors h) + length new]"
proof -
  obtain h0 r0 where c: "copy_mps self h = (h0, r0)" by force
  from copy_mps_store[OF c] obtain new c0 where
    s: "tensors h0 = tensors h @ new" "chains h0 = chains h @ [c0]" "r0 = length (chains h)"
       "chain_data c0 = [length (tensors h)..<length (tensors h) + length new]" by blast
  let ?rs = "chain_data (chains h0 ! r0)"
  have h1: "h1 = fold (\<lambda>r. update_tensor r conjugate) ?rs h0" "r = r0"
    using assms c by (auto simp: mps_complex_conjugate_def)
  have rs: "?rs = [length (tensors h)..<length (tensors h) + length new]" using s by simp
  have "take (length (tensors h)) (tensors h1) = tensors h"
  proof (rule nth_equalityI)
    show "length (take (length (tensors h)) (tensors h1)) = length (tensors h)"
      using h1 s by simp
    fix i assume "i < length (take (length (tensors h)) (tensors h1))"
    then have i: "i < length (tensors h)" by simp
    then show "take (length (tensors h)) (tensors h1) ! i = tensors h ! i"
      using h1 s rs by (simp add: nth_tensors_fold_update nth_append)
  qed
  moreover have "length (tensors h1) = length (tensors h) + length new" using h1 s by simp
  ultimately have "tensors h1 = tensors h @ drop (length (tensors h)) (tensors h1)"
    "length (drop (length (tensors h)) (tensors h1)) = length new"
    by (metis append_take_drop_id, simp)
  then show ?thesis using h1 s by (intro exI[of _ "drop (length (tensors h)) (tensors h1)"] exI[of _ c0]) simp
qed


subsection \<open>The inner product restores the labels of the ket\<close>

lemma index_of_less: "x \<in> set xs \<Longrightarrow> index_of xs x < length xs"
  unfolding index_of_def by (induction xs) auto

lemma nth_index_of: "x \<in> set xs \<Longrightarrow> xs ! index_of xs x = x"
  unfolding index_of_def by (induction xs) auto

lemma index_of_nth: "distinct xs \<Longrightarrow> i < length xs \<Longrightarrow> index_of xs (xs ! i) = i"
  unfolding index_of_def
proof (induction xs arbitrary: i)
  case Nil
  then show ?case by simp
next
  case (Cons a xs)
  then show ?case by (cases i) auto
qed

lemma replace_one_roundtrip:
  assumes "distinct olds" "distinct news" "length olds = length news" "l \<in> set olds"
  shows "replace_one news olds (replace_one olds news l) = l"
proof -
  let ?i = "index_of olds l"
  have i: "?i < length news" using assms index_of_less by metis
  then have "news ! ?i \<in> set news" by simp
  moreover have "index_of news (news ! ?i) = ?i" using assms i by (simp add: index_of_nth)
  ultimately show ?thesis using assms by (simp add: replace_one_def nth_index_of)
qed

lemma replace_label_roundtrip:
  assumes "distinct olds" "distinct news" "length olds = length news"
    "set (labels t) \<subseteq> set olds"
  shows "replace_label news olds (replace_label olds news t) = t"
proof -
  have "map (replace_one news olds \<circ> replace_one olds news) (labels t) = map id (labels t)"
    using assms by (intro map_cong) (auto simp: replace_one_roundtrip)
  then show ?thesis by (simp add: replace_label_def)
qed

lemma replace_left_right_phys_labels_store:
  "tensors (replace_left_right_phys_labels self a b p h)
     = tensors (fold (\<lambda>r. update_tensor r
          (replace_label [left_label (chains h ! self), right_label (chains h ! self),
                          phys_label (chains h ! self)]
             (fill_none [a, b, p] [left_label (chains h ! self), right_label (chains h ! self),
                          phys_label (chains h ! self)])))
          (chain_data (chains h ! self)) h)
   \<and> chains (replace_left_right_phys_labels self a b p h)
     = (chains h)[self := (chains h ! self)\<lparr>left_label := a, right_label := b, phys_label := p\<rparr>]"
  by (simp add: replace_left_right_phys_labels_def Let_def chains_update_chain)

lemma fill_none_Some: "fill_none [Some a, Some b, Some c] olds3 = [Some a, Some b, Some c]"
  if "length olds3 = 3"
  using that by (cases olds3; cases "tl olds3"; cases "tl (tl olds3)") (auto simp: fill_none_def)

lemma inner_product_mps_store:
  assumes "inner_product_mps mps_bra mps_ket ccb rwt h = Some (h', res)"
  shows "\<exists>h1 b. (if ccb then mps_complex_conjugate mps_bra h else copy_mps mps_bra h) = (h1, b)
       \<and> h' = replace_left_right_phys_labels mps_ket (left_label (chains h1 ! mps_ket))
                 (right_label (chains h1 ! mps_ket)) (phys_label (chains h1 ! mps_ket))
                 (standard_labels b ''_cc'' (standard_labels mps_ket [] h1))"
proof -
  obtain h1 b where c: "(if ccb then mps_complex_conjugate mps_bra h else copy_mps mps_bra h) = (h1, b)"
    by force
  with assms show ?thesis
    by (auto simp: inner_product_mps_def Let_def split: Option.bind_splits)
qed

text \<open>
  Claim C8.  When \<open>inner_product_mps\<close> returns for a ket that is a matrix product state,
  the ket object has its three label attributes and its slots as before the call, every
  tensor of the ket has its labels and its data as before, and so has every other object
  that was in the store before the call (the bra too, also when bra and ket are the same
  object).
\<close>

theorem inner_product_restores_ket:
  assumes wf: "wf_mps h mps_ket"
    and ip: "inner_product_mps mps_bra mps_ket complex_conjugate_bra return_whole_tensor h
               = Some (h', res)"
  shows "chains h' ! mps_ket = chains h ! mps_ket
       \<and> chain_tensors h' mps_ket = chain_tensors h mps_ket
       \<and> take (length (tensors h)) (tensors h') = tensors h
       \<and> take (length (chains h)) (chains h') = chains h"
proof -
  from inner_product_mps_store[OF ip] obtain h1 b where
    cp: "(if complex_conjugate_bra then mps_complex_conjugate mps_bra h else copy_mps mps_bra h) = (h1, b)"
    and h': "h' = replace_left_right_phys_labels mps_ket (left_label (chains h1 ! mps_ket))
                 (right_label (chains h1 ! mps_ket)) (phys_label (chains h1 ! mps_ket))
                 (standard_labels b ''_cc'' (standard_labels mps_ket [] h1))"
    by blast
  from cp obtain new cb where
    s: "tensors h1 = tensors h @ new" "chains h1 = chains h @ [cb]" "b = length (chains h)"
       "chain_data cb = [length (tensors h)..<length (tensors h) + length new]"
    using mps_complex_conjugate_store copy_mps_store by (cases complex_conjugate_bra) (simp, blast)+
  let ?c = "chains h ! mps_ket"
  let ?olds = "[left_label ?c, right_label ?c, phys_label ?c]"
  let ?std = "[Some ''left'', Some ''right'', Some ''phys'']"
  let ?n = "length (tensors h)"
  from wf have k: "mps_ket < length (chains h)" and d: "distinct ?olds"
    and nn: "left_label ?c \<noteq> None" "right_label ?c \<noteq> None" "phys_label ?c \<noteq> None"
    and dr: "distinct (chain_data ?c)"
    and rs: "\<forall>r \<in> set (chain_data ?c). r < ?n"
    and ts: "\<forall>r \<in> set (chain_data ?c). set (labels (tensors h ! r)) \<subseteq> set ?olds"
    by (auto simp: wf_mps_def Let_def list_all_iff chain_tensors_def mps_tensor_def)
  have kb: "mps_ket \<noteq> b" using k s by simp
  have c1: "chains h1 ! mps_ket = ?c" using k s by (simp add: nth_append)
  obtain l r p where lrp: "left_label ?c = Some l" "right_label ?c = Some r" "phys_label ?c = Some p"
    using nn by auto
  define h2 where "h2 = standard_labels mps_ket [] h1"
  define h3 where "h3 = standard_labels b ''_cc'' h2"
  have t2: "tensors h2 = tensors (fold (\<lambda>r. update_tensor r (replace_label ?olds ?std))
                             (chain_data ?c) h1)"
    and ch2: "chains h2 = (chains h1)[mps_ket := ?c\<lparr>left_label := Some ''left'',
                 right_label := Some ''right'', phys_label := Some ''phys''\<rparr>]"
    using replace_left_right_phys_labels_store[of mps_ket "Some ''left''" "Some ''right''" "Some ''phys''" h1]
    by (simp_all add: h2_def standard_labels_def c1 fill_none_Some)
  have cb2: "chains h2 ! b = cb" using s kb by (simp add: ch2 nth_append)
  have t3: "tensors h3 = tensors (fold (\<lambda>r. update_tensor r
               (replace_label [left_label cb, right_label cb, phys_label cb]
                  [Some ''left_cc'', Some ''right_cc'', Some ''phys_cc'']))
               (chain_data cb) h2)"
    and ch3: "chains h3 = (chains h2)[b := cb\<lparr>left_label := Some ''left_cc'',
                 right_label := Some ''right_cc'', phys_label := Some ''phys_cc''\<rparr>]"
    using replace_left_right_phys_labels_store[of b "Some ''left_cc''" "Some ''right_cc''" "Some ''phys_cc''" h2]
    by (simp_all add: h3_def standard_labels_def cb2 fill_none_Some)
  have c3: "chains h3 ! mps_ket = ?c\<lparr>left_label := Some ''left'',
                 right_label := Some ''right'', phys_label := Some ''phys''\<rparr>"
    using k s kb by (simp add: ch3 ch2)
  have h'2: "h' = replace_left_right_phys_labels mps_ket (Some l) (Some r) (Some p) h3"
    using h' by (simp add: h3_def h2_def c1 lrp)
  have same: "?c\<lparr>left_label := Some l, right_label := Some r, phys_label := Some p\<rparr> = ?c"
    using lrp[symmetric] by simp
  have t4: "tensors h' = tensors (fold (\<lambda>r. update_tensor r (replace_label ?std ?olds))
                             (chain_data ?c) h3)"
    and ch4: "chains h' = (chains h3)[mps_ket := ?c]"
    using replace_left_right_phys_labels_store[of mps_ket "Some l" "Some r" "Some p" h3]
    by (simp_all add: h'2 c3 fill_none_Some lrp same)
  have len: "length (tensors h2) = ?n + length new" "length (tensors h3) = ?n + length new"
    "length (tensors h') = ?n + length new"
    using s by (simp_all add: t2 t3 t4)
  have nth: "tensors h' ! i = tensors h ! i" if i: "i < ?n" for i
  proof -
    have i2: "tensors h2 ! i = (if i \<in> set (chain_data ?c)
        then replace_label ?olds ?std (tensors h ! i) else tensors h ! i)"
      using i s dr by (simp add: t2 nth_tensors_fold_update nth_append)
    have i3: "tensors h3 ! i = tensors h2 ! i"
      using i s len by (simp add: t3 nth_tensors_fold_update)
    have "tensors h' ! i = (if i \<in> set (chain_data ?c)
        then replace_label ?std ?olds (tensors h3 ! i) else tensors h3 ! i)"
      using i len dr by (simp add: t4 nth_tensors_fold_update)
    also have "\<dots> = tensors h ! i"
      using i2 i3 ts d by (auto simp: replace_label_roundtrip)
    finally show ?thesis .
  qed
  have T: "take ?n (tensors h') = tensors h"
    by (rule nth_equalityI) (simp_all add: len nth)
  have C: "take (length (chains h)) (chains h') = chains h"
    by (rule nth_equalityI) (use k s in \<open>auto simp: ch4 ch3 ch2 nth_list_update nth_append\<close>)
  have K: "chains h' ! mps_ket = ?c" using k s by (simp add: ch4 ch3 ch2)
  have "chain_tensors h' mps_ket = chain_tensors h mps_ket"
    using K rs nth by (simp add: chain_tensors_def)
  with T C K show ?thesis by simp
qed

text \<open>
  The theorem at the chain labelled \<open>a\<close>, \<open>b\<close>, \<open>c\<close>, taken as bra and as ket: during the
  call the tensors of the ket carry \<open>left\<close>, \<open>right\<close> and \<open>phys\<close>; the call returns the inner
  product 5 and leaves the ket with the labels \<open>a\<close>, \<open>b\<close>, \<open>c\<close> on the object and on every
  tensor.
\<close>

theorem inner_product_restores_ket_witness:
  "wf_mps heap_abc 0
   \<and> map labels (chain_tensors (standard_labels 0 [] heap_abc) 0)
       = [[Some ''phys'', Some ''left'', Some ''right''],
          [Some ''phys'', Some ''left'', Some ''right'']]
   \<and> (\<exists>h'. inner_product_mps 0 0 True False heap_abc
               = Some (h', Data \<lparr>shape = [], flat = [5]\<rparr>)
         \<and> chains h' ! 0 = \<lparr>chain_data = [0, 1], left_label = Some ''a'',
                              right_label = Some ''b'', phys_label = Some ''c''\<rparr>
         \<and> chain_tensors h' 0 = [site0_abc, site1_abc]
         \<and> take (length (tensors heap_abc)) (tensors h') = tensors heap_abc
         \<and> take (length (chains heap_abc)) (chains h') = chains heap_abc)"
proof -
  have wf: "wf_mps heap_abc 0" by code_simp
  have mid: "map labels (chain_tensors (standard_labels 0 [] heap_abc) 0)
       = [[Some ''phys'', Some ''left'', Some ''right''],
          [Some ''phys'', Some ''left'', Some ''right'']]"
    by code_simp
  have "map_option snd (inner_product_mps 0 0 True False heap_abc)
          = Some (Data \<lparr>shape = [], flat = [5]\<rparr>)"
    by code_simp
  then obtain h' where ip: "inner_product_mps 0 0 True False heap_abc
                              = Some (h', Data \<lparr>shape = [], flat = [5]\<rparr>)"
    by auto
  have c: "chains heap_abc ! 0 = \<lparr>chain_data = [0, 1], left_label = Some ''a'',
                              right_label = Some ''b'', phys_label = Some ''c''\<rparr>"
    by code_simp
  have t: "chain_tensors heap_abc 0 = [site0_abc, site1_abc]" by code_simp
  from inner_product_restores_ket[OF wf ip] wf ip mid c t show ?thesis by simp
qed

subsection \<open>Labels and sizes of a contraction\<close>

lemma filter_eq_upt: "k < n \<Longrightarrow> filter (\<lambda>i. i = k) [0..<n] = [k]"
proof (induction n)
  case 0
  then show ?case by simp
next
  case (Suc n)
  show ?case
  proof (cases "k < n")
    case True
    with Suc show ?thesis by simp
  next
    case False
    with Suc.prems have "k = n" by simp
    moreover have "filter (\<lambda>i. i = n) [0..<n] = []" by (simp add: filter_empty_conv)
    ultimately show ?thesis by simp
  qed
qed

lemma positions_distinct:
  assumes "distinct ls" "l \<in> set ls"
  shows "positions ls l = [index_of ls l]"
proof -
  let ?k = "index_of ls l"
  have k: "?k < length ls" "ls ! ?k = l" using assms by (simp_all add: index_of_less nth_index_of)
  have "(ls ! i = l) = (i = ?k)" if "i < length ls" for i
    using that assms(1) k nth_eq_iff_index_eq[of ls i ?k] by auto
  then have "positions ls l = filter (\<lambda>i. i = ?k) [0..<length ls]"
    unfolding positions_def by (intro filter_cong) simp_all
  then show ?thesis using k(1) by (simp add: filter_eq_upt)
qed

lemma concat_positions:
  "distinct ls \<Longrightarrow> set la \<subseteq> set ls \<Longrightarrow>
   concat (map (positions ls) la) = map (index_of ls) la"
  by (induction la) (simp_all add: positions_distinct)

lemma index_of_inj:
  "x \<in> set ls \<Longrightarrow> y \<in> set ls \<Longrightarrow> index_of ls x = index_of ls y \<Longrightarrow> x = y"
  by (metis nth_index_of)

lemma distinct_map_index_of:
  "distinct la \<Longrightarrow> set la \<subseteq> set ls \<Longrightarrow> distinct (map (index_of ls) la)"
proof -
  assume a: "distinct la" "set la \<subseteq> set ls"
  have "inj_on (index_of ls) (set la)"
  proof (rule inj_onI)
    fix x y assume "x \<in> set la" "y \<in> set la" "index_of ls x = index_of ls y"
    then show "x = y" using a(2) index_of_inj[of x ls y] by blast
  qed
  with a(1) show ?thesis by (simp add: distinct_map)
qed

lemma map_nth_filter_upt:
  "map ((!) xs) (filter (\<lambda>i. Q (xs ! i)) [0..<length xs]) = filter Q xs"
proof -
  have "filter Q (map ((!) xs) [0..<length xs]) = map ((!) xs) (filter (Q \<circ> (!) xs) [0..<length xs])"
    by (rule filter_map)
  then show ?thesis by (simp add: map_nth comp_def)
qed

lemma free_axes_labels:
  assumes "distinct ls" "set la \<subseteq> set ls"
  shows "map ((!) ls) (free_axes (length ls) (map (index_of ls) la)) = filter (\<lambda>l. l \<notin> set la) ls"
proof -
  have eq: "(i \<notin> index_of ls ` set la) = (ls ! i \<notin> set la)" if "i < length ls" for i
  proof -
    have "i \<in> index_of ls ` set la \<longleftrightarrow> ls ! i \<in> set la"
    proof
      assume "i \<in> index_of ls ` set la"
      then obtain l where "l \<in> set la" "i = index_of ls l" by auto
      then show "ls ! i \<in> set la" using assms(2) by (auto simp: nth_index_of)
    next
      assume "ls ! i \<in> set la"
      moreover have "index_of ls (ls ! i) = i" using assms(1) that by (simp add: index_of_nth)
      ultimately show "i \<in> index_of ls ` set la" by force
    qed
    then show ?thesis by simp
  qed
  have "free_axes (length ls) (map (index_of ls) la)
        = filter (\<lambda>i. ls ! i \<notin> set la) [0..<length ls]"
    unfolding free_axes_def by (rule filter_cong) (simp_all add: eq)
  then show ?thesis using map_nth_filter_upt[of ls "\<lambda>l. l \<notin> set la"] by simp
qed

lemma free_axes_dims:
  assumes "distinct (labels t)" "set la \<subseteq> set (labels t)"
    "length (shape (data t)) = length (labels t)"
  shows "map ((!) (shape (data t))) (free_axes (length (shape (data t))) (map (index_of (labels t)) la))
         = map (dim_of t) (filter (\<lambda>l. l \<notin> set la) (labels t))"
proof -
  let ?ls = "labels t"
  let ?fa = "free_axes (length ?ls) (map (index_of ?ls) la)"
  have "map (dim_of t) (map ((!) ?ls) ?fa) = map ((!) (shape (data t))) ?fa"
    using assms(1) by (auto simp: dim_of_def free_axes_def index_of_nth)
  then show ?thesis using free_axes_labels[OF assms(1,2)] assms(3) by simp
qed

lemma contract_labelled:
  assumes A: "distinct (labels A)" "length (shape (data A)) = length (labels A)"
      "set la \<subseteq> set (labels A)" "distinct la"
    and B: "distinct (labels B)" "length (shape (data B)) = length (labels B)"
      "set lb \<subseteq> set (labels B)" "distinct lb"
  shows "contract A B la lb
         = (if length la = length lb \<and> map (dim_of A) la = map (dim_of B) lb
            then Some \<lparr>labels = filter (\<lambda>l. l \<notin> set la) (labels A)
                               @ filter (\<lambda>l. l \<notin> set lb) (labels B),
                       data = the (tensordot (data A) (data B) (map (index_of (labels A)) la)
                                     (map (index_of (labels B)) lb))\<rparr>
            else None)"
    and "contract A B la lb = Some C \<Longrightarrow>
         shape (data C) = map (dim_of A) (filter (\<lambda>l. l \<notin> set la) (labels A))
                          @ map (dim_of B) (filter (\<lambda>l. l \<notin> set lb) (labels B))"
proof -
  let ?ia = "map (index_of (labels A)) la"
  let ?ib = "map (index_of (labels B)) lb"
  have d: "distinct ?ia" "distinct ?ib" using A B by (simp_all add: distinct_map_index_of)
  have dims: "map ((!) (shape (data A))) ?ia = map (dim_of A) la"
    "map ((!) (shape (data B))) ?ib = map (dim_of B) lb"
    by (simp_all add: dim_of_def)
  have td: "tensordot (data A) (data B) ?ia ?ib
      = (if length la = length lb \<and> map (dim_of A) la = map (dim_of B) lb
         then Some (the (tensordot (data A) (data B) ?ia ?ib)) else None)"
    unfolding tensordot_def Let_def dims using d by simp
  show 1: "contract A B la lb
         = (if length la = length lb \<and> map (dim_of A) la = map (dim_of B) lb
            then Some \<lparr>labels = filter (\<lambda>l. l \<notin> set la) (labels A)
                               @ filter (\<lambda>l. l \<notin> set lb) (labels B),
                       data = the (tensordot (data A) (data B) ?ia ?ib)\<rparr>
            else None)"
    unfolding contract_def Let_def concat_positions[OF A(1,3)] concat_positions[OF B(1,3)]
    apply (subst td)
    using free_axes_labels[OF A(1,3)] free_axes_labels[OF B(1,3)]
    by simp
  assume C: "contract A B la lb = Some C"
  then have ok: "length la = length lb" "map (dim_of A) la = map (dim_of B) lb"
    and Cd: "data C = the (tensordot (data A) (data B) ?ia ?ib)"
    unfolding 1 by (auto split: if_splits)
  have "shape (the (tensordot (data A) (data B) ?ia ?ib))
        = map ((!) (shape (data A))) (free_axes (length (shape (data A))) ?ia)
          @ map ((!) (shape (data B))) (free_axes (length (shape (data B))) ?ib)"
    unfolding tensordot_def Let_def dims using d ok by (simp add: shape_nd_build)
  then show "shape (data C) = map (dim_of A) (filter (\<lambda>l. l \<notin> set la) (labels A))
                          @ map (dim_of B) (filter (\<lambda>l. l \<notin> set lb) (labels B))"
    using Cd free_axes_dims[OF A(1,3,2)] free_axes_dims[OF B(1,3,2)] by simp
qed

subsection \<open>The check of the canonical form\<close>

lemma linalg_norm_greater:
  "(linalg_norm a > t) = (t < 0 \<or> norm_squared a > t\<^sup>2)"
proof -
  have e: "sum_list (map (\<lambda>x. (cmod x)\<^sup>2) xs) = sum_list (map (\<lambda>x. (Re x)\<^sup>2 + (Im x)\<^sup>2) xs)"
    for xs :: "complex list"
    by (induction xs) (simp_all add: cmod_power2)
  have nn: "0 \<le> norm_squared a"
    unfolding norm_squared_def by (rule sum_list_nonneg) auto
  have n: "linalg_norm a = sqrt (norm_squared a)"
    by (simp add: linalg_norm_def norm_squared_def e)
  show ?thesis
  proof (cases "t < 0")
    case True
    have "0 \<le> linalg_norm a" using nn by (simp add: n)
    with True show ?thesis by simp
  next
    case False
    then have "(sqrt (norm_squared a) > t) = (norm_squared a > t\<^sup>2)"
      by (metis not_less real_less_rsqrt real_sqrt_less_iff real_sqrt_abs abs_of_nonneg
            real_sqrt_unique power2_eq_square mult_nonneg_nonneg)
    with False show ?thesis by (simp add: n)
  qed
qed

lemma not_canonised_code [code]:
  "not_canonised t t_cc ls ls_cc threshold = do {
     I \<leftarrow> contract t t_cc ls ls_cc;
     n \<leftarrow> first_dim (data I);
     d \<leftarrow> nd_sub (data I) (identity n);
     Some (threshold < 0 \<or> norm_squared d > threshold\<^sup>2)
   }"
  by (simp add: not_canonised_def linalg_norm_greater)

lemma init_tensor_id:
  "left \<in> set (labels t) \<Longrightarrow> right \<in> set (labels t) \<Longrightarrow> init_tensor left right t = t"
  by (simp add: init_tensor_def copy_tensor_def Let_def)

lemma mps_complex_conjugate_wf:
  assumes wf: "wf_mps h mps" and cc: "mps_complex_conjugate mps h = (h1, b)"
  shows "tensors h1 = tensors h @ map conjugate (chain_tensors h mps)"
    and "chains h1 = chains h @ [(chains h ! mps)
           \<lparr>chain_data := [length (tensors h)..<length (tensors h) + len h mps]\<rparr>]"
    and "b = length (chains h)"
proof -
  let ?c = "chains h ! mps"
  let ?ts = "chain_tensors h mps"
  let ?n = "length (tensors h)"
  have id: "map (init_tensor (left_label ?c) (right_label ?c) \<circ> copy_tensor) ?ts = ?ts"
  proof (rule map_idI)
    fix t assume "t \<in> set ?ts"
    then have "left_label ?c \<in> set (labels t)" "right_label ?c \<in> set (labels t)"
      using wf by (auto simp: wf_mps_def Let_def list_all_iff mps_tensor_def)
    then show "(init_tensor (left_label ?c) (right_label ?c) \<circ> copy_tensor) t = t"
      by (simp add: init_tensor_id copy_tensor_def)
  qed
  obtain h0 b0 where cp: "copy_mps mps h = (h0, b0)" by force
  have h0: "tensors h0 = tensors h @ ?ts"
    "chains h0 = chains h @ [\<lparr>chain_data = [?n..<?n + length ?ts], left_label = left_label ?c,
        right_label = right_label ?c, phys_label = phys_label ?c\<rparr>]"
    "b0 = length (chains h)"
    using cp id by (auto simp: copy_mps_def Let_def copy_tensor_def dest!: new_MatrixProductState_store)
  have lts: "length ?ts = len h mps" by (simp add: chain_tensors_def len_def)
  have rec: "\<lparr>chain_data = [?n..<?n + length ?ts], left_label = left_label ?c,
        right_label = right_label ?c, phys_label = phys_label ?c\<rparr>
      = ?c\<lparr>chain_data := [?n..<?n + len h mps]\<rparr>"
    by (simp add: lts)
  have h1: "h1 = fold (\<lambda>r. update_tensor r conjugate) [?n..<?n + length ?ts] h0" "b = b0"
    using cc cp h0 by (auto simp: mps_complex_conjugate_def)
  show "tensors h1 = tensors h @ map conjugate ?ts"
  proof (rule nth_equalityI)
    show "length (tensors h1) = length (tensors h @ map conjugate ?ts)"
      by (simp add: h1 h0)
    fix i assume "i < length (tensors h1)"
    then have i: "i < ?n + length ?ts" by (simp add: h1 h0)
    then show "tensors h1 ! i = (tensors h @ map conjugate ?ts) ! i"
      by (simp add: h1 h0 nth_tensors_fold_update nth_append)
  qed
  show "chains h1 = chains h @ [?c\<lparr>chain_data := [?n..<?n + len h mps]\<rparr>]"
    using h0(2) rec by (simp add: h1)
  show "b = length (chains h)" by (simp add: h1 h0)
qed

lemma first_site_not_canonised_result:
  assumes "first_site_not_canonised h mps mps_cc ls ls_cc threshold sites first = Some r"
  shows "(\<exists>k < length sites.
            (do { t \<leftarrow> getitem h mps (int (sites ! k));
                  t_cc \<leftarrow> getitem h mps_cc (int (sites ! k));
                  not_canonised t t_cc ls ls_cc threshold }) = Some True
          \<and> (\<forall>m < k. (do { t \<leftarrow> getitem h mps (int (sites ! m));
                            t_cc \<leftarrow> getitem h mps_cc (int (sites ! m));
                            not_canonised t t_cc ls ls_cc threshold }) = Some False)
          \<and> r = int (sites ! k))
       \<or> ((\<forall>m < length sites. (do { t \<leftarrow> getitem h mps (int (sites ! m));
                            t_cc \<leftarrow> getitem h mps_cc (int (sites ! m));
                            not_canonised t t_cc ls ls_cc threshold }) = Some False)
          \<and> r = first)"
  using assms
proof (induction sites)
  case Nil
  then show ?case by simp
next
  case (Cons i rest)
  let ?test = "\<lambda>j. do { t \<leftarrow> getitem h mps (int j);
                  t_cc \<leftarrow> getitem h mps_cc (int j);
                  not_canonised t t_cc ls ls_cc threshold }"
  from Cons.prems obtain b where b: "?test i = Some b"
    and r: "(if b then Some (int i)
             else first_site_not_canonised h mps mps_cc ls ls_cc threshold rest first) = Some r"
    by (auto split: Option.bind_splits)
  show ?case
  proof (cases b)
    case True
    with b r have "?test ((i # rest) ! 0) = Some True" "r = int ((i # rest) ! 0)" by simp_all
    then show ?thesis by (intro disjI1 exI[of _ 0]) simp
  next
    case False
    with r have "first_site_not_canonised h mps mps_cc ls ls_cc threshold rest first = Some r"
      by simp
    from Cons.IH[OF this] show ?thesis
    proof
      assume "\<exists>k<length rest. ?test (rest ! k) = Some True
                \<and> (\<forall>m<k. ?test (rest ! m) = Some False) \<and> r = int (rest ! k)"
      then obtain k where k: "k < length rest" "?test (rest ! k) = Some True"
        "\<forall>m<k. ?test (rest ! m) = Some False" "r = int (rest ! k)" by blast
      have "\<forall>m < Suc k. ?test ((i # rest) ! m) = Some False"
      proof (intro allI impI)
        fix m assume "m < Suc k"
        then show "?test ((i # rest) ! m) = Some False"
          using k(3) b False by (cases m) auto
      qed
      with k show ?thesis by (intro disjI1 exI[of _ "Suc k"]) simp
    next
      assume a: "(\<forall>m<length rest. ?test (rest ! m) = Some False) \<and> r = first"
      have "\<forall>m < length (i # rest). ?test ((i # rest) ! m) = Some False"
      proof (intro allI impI)
        fix m assume "m < length (i # rest)"
        then show "?test ((i # rest) ! m) = Some False"
          using a b False by (cases m) auto
      qed
      with a show ?thesis by blast
    qed
  qed
qed

lemma first_site_not_canonised_total:
  assumes "\<forall>i \<in> set sites. (do { t \<leftarrow> getitem h mps (int i);
                  t_cc \<leftarrow> getitem h mps_cc (int i);
                  not_canonised t t_cc ls ls_cc threshold }) \<noteq> None"
  shows "first_site_not_canonised h mps mps_cc ls ls_cc threshold sites first \<noteq> None"
  using assms
proof (induction sites)
  case Nil
  then show ?case by simp
next
  case (Cons i rest)
  then obtain b where "(do { t \<leftarrow> getitem h mps (int i);
                  t_cc \<leftarrow> getitem h mps_cc (int i);
                  not_canonised t t_cc ls ls_cc threshold }) = Some b" by auto
  with Cons show ?case by (auto split: Option.bind_splits)
qed


lemma distinct_singleton: "distinct xs \<Longrightarrow> set xs = {x} \<Longrightarrow> xs = [x]"
proof (cases xs)
  case Nil
  assume "set xs = {x}"
  with Nil show ?thesis by simp
next
  case (Cons a as)
  assume d: "distinct xs" and s: "set xs = {x}"
  from s Cons have a: "a = x" by auto
  from s Cons d a have "set as \<subseteq> {x}" "x \<notin> set as" by auto
  then have "as = []" by (cases as) auto
  with a Cons show ?thesis by simp
qed

lemma filter_third:
  assumes "distinct xs" "set xs = {u, v, w}" "distinct [u, v, w]"
  shows "filter (\<lambda>x. x \<notin> set [u, v]) xs = [w]"
proof (rule distinct_singleton)
  show "distinct (filter (\<lambda>x. x \<notin> set [u, v]) xs)" using assms(1) by simp
  show "set (filter (\<lambda>x. x \<notin> set [u, v]) xs) = {w}" using assms(2,3) by auto
qed

lemma dim_of_conjugate: "dim_of (conjugate t) l = dim_of t l"
  by (simp add: dim_of_def conjugate_def)

lemma not_canonised_total:
  assumes t: "distinct (labels t)" "set (labels t) = {u, v, w}"
      "length (shape (data t)) = length (labels t)"
    and d: "distinct [u, v, w]"
  shows "\<exists>b. not_canonised t (conjugate t) [u, v] [u, v] threshold = Some b"
proof -
  have A: "set [u, v] \<subseteq> set (labels t)" "distinct [u, v]" using t d by auto
  have B: "distinct (labels (conjugate t))"
    "length (shape (data (conjugate t))) = length (labels (conjugate t))"
    "set [u, v] \<subseteq> set (labels (conjugate t))"
    using t d by (auto simp: conjugate_def)
  have lc: "labels (conjugate t) = labels t" by (simp add: conjugate_def)
  have dims: "map (dim_of t) [u, v] = map (dim_of (conjugate t)) [u, v]"
    by (simp add: dim_of_conjugate)
  from contract_labelled(1)[OF t(1) t(3) A B(1,2,3) A(2)] dims
  obtain C where C: "contract t (conjugate t) [u, v] [u, v] = Some C" by simp
  from contract_labelled(2)[OF t(1) t(3) A B(1,2,3) A(2) C]
  have sh: "shape (data C) = [dim_of t w, dim_of t w]"
    unfolding lc filter_third[OF t(1,2) d] by (simp add: dim_of_conjugate)
  have fd: "first_dim (data C) = Some (dim_of t w)" by (simp add: first_dim_def sh)
  have "\<exists>x. nd_sub (data C) (identity (dim_of t w)) = Some x"
    by (simp add: nd_sub_def sh identity_def shape_nd_build)
  then show ?thesis by (auto simp: not_canonised_def C fd)
qed

lemma rev_upt_nth: "k < N - 1 \<Longrightarrow> rev [1..<N] ! k = N - 1 - k"
  by (simp add: rev_nth)

text \<open>
  Claim C6.  For a matrix product state of \<open>N\<close> sites, \<open>check_canonical_form_mps\<close> returns a
  pair \<open>(L, R)\<close>.  \<open>L\<close> is the smallest site among \<open>0, ..., N - 2\<close> whose contraction with
  its complex conjugate over the physical and the left axis differs from the identity
  matrix by a Frobenius norm above the threshold, and \<open>N - 1\<close> when there is none; \<open>R\<close> is
  the largest site among \<open>1, ..., N - 1\<close> for which the contraction over the physical and
  the right axis does, and 0 when there is none.  The call adds the conjugated copy of
  the chain to the store and changes no object that was there: the chain has its tensors
  as before.
\<close>

theorem check_canonical_form_mps_scan:
  assumes wf: "wf_mps h mps"
  shows "\<exists>h' L R.
      check_canonical_form_mps mps threshold h = Some (h', L, R)
    \<and> tensors h' = tensors h @ map conjugate (chain_tensors h mps)
    \<and> take (length (chains h)) (chains h') = chains h
    \<and> chain_tensors h' mps = chain_tensors h mps
    \<and> (L = int (len h mps) - 1
        \<or> 0 \<le> L \<and> L < int (len h mps) - 1
          \<and> deviates (chain_tensors h mps ! nat L)
               [phys_label (chains h ! mps), left_label (chains h ! mps)] threshold)
    \<and> (\<forall>j. int j < L \<longrightarrow> j < len h mps - 1 \<longrightarrow>
          \<not> deviates (chain_tensors h mps ! j)
               [phys_label (chains h ! mps), left_label (chains h ! mps)] threshold)
    \<and> (R = 0
        \<or> 0 < R \<and> R < int (len h mps)
          \<and> deviates (chain_tensors h mps ! nat R)
               [phys_label (chains h ! mps), right_label (chains h ! mps)] threshold)
    \<and> (\<forall>j. R < int j \<longrightarrow> j < len h mps \<longrightarrow>
          \<not> deviates (chain_tensors h mps ! j)
               [phys_label (chains h ! mps), right_label (chains h ! mps)] threshold)"
proof -
  let ?c = "chains h ! mps"
  let ?ts = "chain_tensors h mps"
  let ?n = "length (tensors h)"
  let ?N = "len h mps"
  let ?l = "left_label ?c" and ?r = "right_label ?c" and ?p = "phys_label ?c"
  obtain h1 b where cc: "mps_complex_conjugate mps h = (h1, b)" by force
  note s = mps_complex_conjugate_wf[OF wf cc]
  from wf have k: "mps < length (chains h)" and d: "distinct [?l, ?r, ?p]"
    and rs: "\<forall>r \<in> set (chain_data ?c). r < ?n"
    and mt: "\<forall>t \<in> set ?ts. mps_tensor ?l ?r ?p t"
    by (auto simp: wf_mps_def Let_def list_all_iff)
  have lts: "length ?ts = ?N" by (simp add: chain_tensors_def len_def)
  have c1: "chains h1 ! mps = ?c" using k s(2) by (simp add: nth_append)
  have cb: "chains h1 ! b = ?c\<lparr>chain_data := [?n..<?n + ?N]\<rparr>" using s(2,3) by simp
  have N1: "len h1 mps = ?N" by (simp add: len_def c1)
  have Nb: "len h1 b = ?N" by (simp add: len_def cb)
  have g: "getitem h1 mps (int i) = Some (?ts ! i)" if "i < ?N" for i
  proof -
    have "chain_data ?c ! i < ?n" using that rs by (simp add: len_def)
    then show ?thesis
      using that by (simp add: getitem_def getitem_ref_def py_index_def N1 c1 s(1) nth_append
                       chain_tensors_def len_def)
  qed
  have gb: "getitem h1 b (int i) = Some (conjugate (?ts ! i))" if "i < ?N" for i
    using that by (simp add: getitem_def getitem_ref_def py_index_def Nb cb s(1) nth_append lts)
  have tot: "\<exists>x. not_canonised (?ts ! i) (conjugate (?ts ! i)) [?p, u] [?p, u] threshold = Some x"
    if "i < ?N" "u = ?l \<or> u = ?r" for i u
  proof -
    from that mt lts have m: "mps_tensor ?l ?r ?p (?ts ! i)" by simp
    from that(2) show ?thesis
    proof
      assume u: "u = ?l"
      have "set (labels (?ts ! i)) = {?p, ?l, ?r}" using m by (auto simp: mps_tensor_def)
      moreover have "distinct [?p, ?l, ?r]" using d by auto
      ultimately show ?thesis using m not_canonised_total[of "?ts ! i" ?p ?l ?r threshold] u
        by (simp add: mps_tensor_def)
    next
      assume u: "u = ?r"
      have "set (labels (?ts ! i)) = {?p, ?r, ?l}" using m by (auto simp: mps_tensor_def)
      moreover have "distinct [?p, ?r, ?l]" using d by auto
      ultimately show ?thesis using m not_canonised_total[of "?ts ! i" ?p ?r ?l threshold] u
        by (simp add: mps_tensor_def)
    qed
  qed
  have test: "(do { t \<leftarrow> getitem h1 mps (int i);
                    t_cc \<leftarrow> getitem h1 b (int i);
                    not_canonised t t_cc [?p, u] [?p, u] threshold })
               = Some (deviates (?ts ! i) [?p, u] threshold)"
    if "i < ?N" "u = ?l \<or> u = ?r" for i u
    using tot[OF that] by (auto simp: g[OF that(1)] gb[OF that(1)] deviates_def)
  have "\<exists>L. first_site_not_canonised h1 mps b [?p, ?l] [?p, ?l] threshold [0..<?N - 1]
               (int ?N - 1) = Some L"
    using first_site_not_canonised_total[of "[0..<?N - 1]" h1 mps b "[?p, ?l]" "[?p, ?l]"
              threshold "int ?N - 1"]
    by (auto simp: test)
  then obtain L where L: "first_site_not_canonised h1 mps b [?p, ?l] [?p, ?l] threshold
               [0..<?N - 1] (int ?N - 1) = Some L" by blast
  have "\<exists>R. first_site_not_canonised h1 mps b [?p, ?r] [?p, ?r] threshold (rev [1..<?N]) 0
              = Some R"
    using first_site_not_canonised_total[of "rev [1..<?N]" h1 mps b "[?p, ?r]" "[?p, ?r]"
              threshold 0]
    by (auto simp: test)
  then obtain R where R: "first_site_not_canonised h1 mps b [?p, ?r] [?p, ?r] threshold
               (rev [1..<?N]) 0 = Some R" by blast
  have res: "check_canonical_form_mps mps threshold h = Some (h1, L, R)"
    using L R by (simp add: check_canonical_form_mps_def cc Let_def c1 cb N1)
  have Lprop: "(L = int ?N - 1
        \<or> 0 \<le> L \<and> L < int ?N - 1 \<and> deviates (?ts ! nat L) [?p, ?l] threshold)
     \<and> (\<forall>j. int j < L \<longrightarrow> j < ?N - 1 \<longrightarrow> \<not> deviates (?ts ! j) [?p, ?l] threshold)"
    using first_site_not_canonised_result[OF L]
  proof
    assume "\<exists>k<length [0..<?N - 1].
        (do { t \<leftarrow> getitem h1 mps (int ([0..<?N - 1] ! k));
              t_cc \<leftarrow> getitem h1 b (int ([0..<?N - 1] ! k));
              not_canonised t t_cc [?p, ?l] [?p, ?l] threshold }) = Some True
        \<and> (\<forall>m<k. (do { t \<leftarrow> getitem h1 mps (int ([0..<?N - 1] ! m));
              t_cc \<leftarrow> getitem h1 b (int ([0..<?N - 1] ! m));
              not_canonised t t_cc [?p, ?l] [?p, ?l] threshold }) = Some False)
        \<and> L = int ([0..<?N - 1] ! k)"
    then obtain k where k: "k < ?N - 1" "deviates (?ts ! k) [?p, ?l] threshold"
      "\<forall>m<k. \<not> deviates (?ts ! m) [?p, ?l] threshold" "L = int k"
      by (auto simp: test)
    then show ?thesis by auto
  next
    assume "(\<forall>m<length [0..<?N - 1].
        (do { t \<leftarrow> getitem h1 mps (int ([0..<?N - 1] ! m));
              t_cc \<leftarrow> getitem h1 b (int ([0..<?N - 1] ! m));
              not_canonised t t_cc [?p, ?l] [?p, ?l] threshold }) = Some False)
        \<and> L = int ?N - 1"
    then show ?thesis by (auto simp: test)
  qed
  have Rprop: "(R = 0
        \<or> 0 < R \<and> R < int ?N \<and> deviates (?ts ! nat R) [?p, ?r] threshold)
     \<and> (\<forall>j. R < int j \<longrightarrow> j < ?N \<longrightarrow> \<not> deviates (?ts ! j) [?p, ?r] threshold)"
    using first_site_not_canonised_result[OF R]
  proof
    assume "\<exists>k<length (rev [1..<?N]).
        (do { t \<leftarrow> getitem h1 mps (int (rev [1..<?N] ! k));
              t_cc \<leftarrow> getitem h1 b (int (rev [1..<?N] ! k));
              not_canonised t t_cc [?p, ?r] [?p, ?r] threshold }) = Some True
        \<and> (\<forall>m<k. (do { t \<leftarrow> getitem h1 mps (int (rev [1..<?N] ! m));
              t_cc \<leftarrow> getitem h1 b (int (rev [1..<?N] ! m));
              not_canonised t t_cc [?p, ?r] [?p, ?r] threshold }) = Some False)
        \<and> R = int (rev [1..<?N] ! k)"
    then obtain k where k: "k < ?N - 1"
      "(do { t \<leftarrow> getitem h1 mps (int (rev [1..<?N] ! k));
              t_cc \<leftarrow> getitem h1 b (int (rev [1..<?N] ! k));
              not_canonised t t_cc [?p, ?r] [?p, ?r] threshold }) = Some True"
      "\<forall>m<k. (do { t \<leftarrow> getitem h1 mps (int (rev [1..<?N] ! m));
              t_cc \<leftarrow> getitem h1 b (int (rev [1..<?N] ! m));
              not_canonised t t_cc [?p, ?r] [?p, ?r] threshold }) = Some False"
      "R = int (rev [1..<?N] ! k)"
      by auto
    have rk: "rev [1..<?N] ! k = ?N - 1 - k" using k(1) by (rule rev_upt_nth)
    have Rk: "R = int (?N - 1 - k)" using k(4) unfolding rk .
    have dk: "deviates (?ts ! (?N - 1 - k)) [?p, ?r] threshold"
    proof -
      have "?N - 1 - k < ?N" using k(1) by simp
      from test[OF this, of ?r] k(2)[unfolded rk] show ?thesis by simp
    qed
    have nd: "\<not> deviates (?ts ! j) [?p, ?r] threshold" if "?N - 1 - k < j" "j < ?N" for j
    proof -
      let ?m = "?N - 1 - j"
      have m: "?m < k" "?N - 1 - ?m = j" using that k(1) by auto
      have mk: "?m < ?N - 1" using m k(1) by simp
      from k(3) m(1) have "(do { t \<leftarrow> getitem h1 mps (int (rev [1..<?N] ! ?m));
              t_cc \<leftarrow> getitem h1 b (int (rev [1..<?N] ! ?m));
              not_canonised t t_cc [?p, ?r] [?p, ?r] threshold }) = Some False" by blast
      then show ?thesis unfolding rev_upt_nth[OF mk] m(2) using that(2) by (simp add: test)
    qed
    define q where "q = ?N - 1 - k"
    have q: "R = int q" "0 < q" "q < ?N" "nat R = q"
      using Rk k(1) by (simp_all add: q_def)
    have "deviates (?ts ! nat R) [?p, ?r] threshold" using dk unfolding q(4) q_def .
    moreover have "\<forall>j. R < int j \<longrightarrow> j < ?N \<longrightarrow> \<not> deviates (?ts ! j) [?p, ?r] threshold"
      using nd q(1) unfolding q_def by simp
    moreover have "0 < R" "R < int ?N" using q by simp_all
    ultimately show ?thesis by blast
  next
    assume a: "(\<forall>m<length (rev [1..<?N]).
        (do { t \<leftarrow> getitem h1 mps (int (rev [1..<?N] ! m));
              t_cc \<leftarrow> getitem h1 b (int (rev [1..<?N] ! m));
              not_canonised t t_cc [?p, ?r] [?p, ?r] threshold }) = Some False)
        \<and> R = 0"
    have nd: "\<not> deviates (?ts ! j) [?p, ?r] threshold" if "0 < j" "j < ?N" for j
    proof -
      let ?m = "?N - 1 - j"
      have mk: "?m < ?N - 1" and mj: "?N - 1 - ?m = j" using that by auto
      from a mk have "(do { t \<leftarrow> getitem h1 mps (int (rev [1..<?N] ! ?m));
              t_cc \<leftarrow> getitem h1 b (int (rev [1..<?N] ! ?m));
              not_canonised t t_cc [?p, ?r] [?p, ?r] threshold }) = Some False" by simp
      then show ?thesis unfolding rev_upt_nth[OF mk] mj using that(2) by (simp add: test)
    qed
    with a show ?thesis by auto
  qed
  have fr: "take (length (chains h)) (chains h1) = chains h" by (simp add: s(2))
  have ct: "chain_tensors h1 mps = ?ts"
    using rs by (simp add: chain_tensors_def c1 s(1) nth_append)
  from res s(1) fr ct Lprop Rprop show ?thesis by blast
qed

text \<open>
  The theorem at the chain of four sites: site 1 is the first one from the left that is
  not left canonical, although site 3 is not either; site 2 is the first one from the
  right that is not right canonical, although sites 0 and 1 are not either.  The third and
  the fourth site have imaginary entries, which only the conjugated copy brings back to
  the identity.
\<close>

theorem check_canonical_form_mps_scan_witness:
  "wf_mps heap_mixed 0
   \<and> map (\<lambda>t. deviates t [Some ''phys'', Some ''left''] (1 / 10 ^ 14))
       (chain_tensors heap_mixed 0) = [False, True, False, True]
   \<and> map (\<lambda>t. deviates t [Some ''phys'', Some ''right''] (1 / 10 ^ 14))
       (chain_tensors heap_mixed 0) = [True, True, True, False]
   \<and> (\<exists>h'. check_canonical_form_mps 0 (1 / 10 ^ 14) heap_mixed = Some (h', 1, 2)
         \<and> tensors h' = tensors heap_mixed @ map conjugate (chain_tensors heap_mixed 0)
         \<and> take (length (chains heap_mixed)) (chains h') = chains heap_mixed
         \<and> chain_tensors h' 0 = chain_tensors heap_mixed 0)"
proof -
  have wf: "wf_mps heap_mixed 0" by code_simp
  have dl: "map (\<lambda>t. deviates t [Some ''phys'', Some ''left''] (1 / 10 ^ 14))
       (chain_tensors heap_mixed 0) = [False, True, False, True]" by code_simp
  have dr: "map (\<lambda>t. deviates t [Some ''phys'', Some ''right''] (1 / 10 ^ 14))
       (chain_tensors heap_mixed 0) = [True, True, True, False]" by code_simp
  have r: "map_option snd (check_canonical_form_mps 0 (1 / 10 ^ 14) heap_mixed) = Some (1, 2)"
    by code_simp
  from check_canonical_form_mps_scan[OF wf, of "1 / 10 ^ 14"] obtain h' L R where
    c: "check_canonical_form_mps 0 (1 / 10 ^ 14) heap_mixed = Some (h', L, R)"
    and f: "tensors h' = tensors heap_mixed @ map conjugate (chain_tensors heap_mixed 0)"
      "take (length (chains heap_mixed)) (chains h') = chains heap_mixed"
      "chain_tensors h' 0 = chain_tensors heap_mixed 0"
    by blast
  from c r have "L = 1" "R = 2" by simp_all
  with c f wf dl dr show ?thesis by simp
qed

subsection \<open>Chains\<close>

lemma reverse_obj_twice: "reverse_obj (reverse_obj c) = c"
  by (simp add: reverse_obj_def Let_def)

text \<open>
  Claim C10.  Calling \<open>reverse\<close> twice restores the state exactly: the order of the tensor
  sequence and the bindings \<open>left_label\<close> and \<open>right_label\<close> are those before the first
  call (for the object itself, whatever its class, and for the whole store), and neither
  call changes any tensor object.
\<close>

theorem reverse_twice:
  "reverse_obj (reverse_obj c) = c
   \<and> reverse self (reverse self h) = h
   \<and> tensors (reverse self h) = tensors h
   \<and> tensors (reverse self (reverse self h)) = tensors h"
proof (cases "self < length (chains h)")
  case True
  then show ?thesis by (simp add: reverse_def reverse_obj_twice)
next
  case False
  then have "(chains h)[self := x] = chains h" for x by (simp add: list_update_beyond)
  then show ?thesis by (simp add: reverse_def reverse_obj_twice)
qed

end
